theory Spec2Isabelle
  imports Complex_Main
begin

section \<open>The upload pipeline of dme\_webapp.py\<close>

text \<open>
  A shallow embedding of \<^verbatim>\<open>process_uploads\<close> (src/dme\_webapp.py, lines 375-502) and of the
  functions it calls. The services the program talks to (the zip decoder, the clock,
  Google Drive, Google Docs and the Gemini model) are parameters: a record of oracles
  that each see the history of calls made so far, so that every theorem holds for
  every behaviour of these services. The calls the program makes are logged in a trace.
\<close>

subsection \<open>Python values, exceptions\<close>

type_synonym bytes = string

text \<open>
  The Python objects the pipeline handles: what \<^verbatim>\<open>json.loads\<close> can return, and the
  values stored in a result dict. A float is carried by its repr; nothing inspects it.
  A dict is an association list in insertion order, read with \<^const>\<open>map_of\<close>.
\<close>

datatype pyobj =
    PNone
  | PBool bool
  | PInt int
  | PFloat string
  | PStr string
  | PList "pyobj list"
  | PDict "(string \<times> pyobj) list"

text \<open>
  Instances of \<^verbatim>\<open>Exception\<close>, which is what the handler at line 459 catches.
  \<open>Raised m\<close> is an exception of a service whose \<^verbatim>\<open>str\<close> is \<open>m\<close>.
\<close>

datatype exn =
    KeyError string
  | TypeError string
  | Raised string

definition repr_str :: "string \<Rightarrow> string" where
  "repr_str k = [CHR 0x27] @ k @ [CHR 0x27]"

text \<open>\<^verbatim>\<open>str(e)\<close>; the repr of a key is the key in single quotes for the keys used here.\<close>

fun str_exn :: "exn \<Rightarrow> string" where
  "str_exn (KeyError k) = repr_str k"
| "str_exn (TypeError m) = m"
| "str_exn (Raised m) = m"

fun type_name :: "pyobj \<Rightarrow> string" where
  "type_name PNone = ''NoneType''"
| "type_name (PBool _) = ''bool''"
| "type_name (PInt _) = ''int''"
| "type_name (PFloat _) = ''float''"
| "type_name (PStr _) = ''str''"
| "type_name (PList _) = ''list''"
| "type_name (PDict _) = ''dict''"

text \<open>
  \<^verbatim>\<open>data[k]\<close> for a string key \<open>k\<close>: a dict gives the value or raises KeyError, every
  other object raises TypeError (messages as CPython 3.11 and later print them).
\<close>

fun getitem :: "pyobj \<Rightarrow> string \<Rightarrow> exn + pyobj" where
  "getitem (PDict kvs) k = (case map_of kvs k of None \<Rightarrow> Inl (KeyError k) | Some v \<Rightarrow> Inr v)"
| "getitem (PList _) k = Inl (TypeError ''list indices must be integers or slices, not str'')"
| "getitem (PStr _) k = Inl (TypeError (''string indices must be integers, not '' @ repr_str ''str''))"
| "getitem v k = Inl (TypeError (repr_str (type_name v) @ '' object is not subscriptable''))"

subsection \<open>Strings\<close>

text \<open>
  Strings are UTF-8 byte lists. \<^verbatim>\<open>str.lower\<close> is modelled on the ASCII letters; no
  other code point lowers to a character of \<^verbatim>\<open>.jpg\<close>, \<^verbatim>\<open>.jpeg\<close> or \<^verbatim>\<open>.png\<close>, so the suffix
  tests below give what Python gives.
\<close>

definition lower_char :: "char \<Rightarrow> char" where
  "lower_char c = (let n = (of_char c :: nat) in if 65 \<le> n \<and> n \<le> 90 then char_of (n + 32) else c)"

definition lower :: "string \<Rightarrow> string" where
  "lower s = map lower_char s"

definition endswith :: "string \<Rightarrow> string \<Rightarrow> bool" where
  "endswith s suf = (length suf \<le> length s \<and> drop (length s - length suf) s = suf)"

text \<open>\<^verbatim>\<open>filename.lower().endswith(('.jpg', '.jpeg', '.png'))\<close>, line 384.\<close>

definition has_image_ext :: "string \<Rightarrow> bool" where
  "has_image_ext filename =
     (endswith (lower filename) ''.jpg'' \<or> endswith (lower filename) ''.jpeg''
      \<or> endswith (lower filename) ''.png'')"

definition digit_char :: "nat \<Rightarrow> char" where
  "digit_char d = char_of (48 + d)"

fun digits :: "nat \<Rightarrow> string" where
  "digits n = (if n < 10 then [digit_char n] else digits (n div 10) @ [digit_char (n mod 10)])"

declare digits.simps [simp del]

text \<open>The format spec \<^verbatim>\<open>{op_idx:03d}\<close>: zero-padded to width 3, the sign counted in the width.\<close>

definition format_03d :: "int \<Rightarrow> string" where
  "format_03d i =
     (if i < 0 then ''-'' @ replicate (2 - length (digits (nat (- i)))) CHR ''0'' @ digits (nat (- i))
      else replicate (3 - length (digits (nat i))) CHR ''0'' @ digits (nat i))"

subsection \<open>Data\<close>

text \<open>An uploaded entry: \<^verbatim>\<open>file.name\<close> and what \<^verbatim>\<open>file.read()\<close> returns.\<close>

record uploaded_file =
  name :: string
  data :: bytes

text \<open>An element of \<^verbatim>\<open>all_images\<close>: the dict with keys \<^verbatim>\<open>'name'\<close> and \<^verbatim>\<open>'bytes'\<close>.\<close>

record image =
  img_name :: string
  img_bytes :: bytes

text \<open>An opened \<^verbatim>\<open>zipfile.ZipFile\<close>: \<^verbatim>\<open>z.namelist()\<close> and \<^verbatim>\<open>z.read(filename)\<close>.\<close>

record archive =
  namelist :: "string list"
  zread :: "string \<Rightarrow> exn + bytes"

text \<open>A result dict (lines 448-465), keys in insertion order.\<close>

type_synonym row = "(string \<times> pyobj) list"

text \<open>
  The calls that reach the outside, in the order they are made. A CSV upload is logged
  with the rows handed to \<^verbatim>\<open>pd.DataFrame\<close>; the text pandas renders from them is not
  modelled. Of the Streamlit calls, \<^verbatim>\<open>st.error\<close> and the overall progress report
  (lines 472-473) are logged; the other display calls are left out.
\<close>

datatype event =
    StError string
  | OverallProgress int int
  | DriveFolder string "string option"
  | DriveCsv "row list" string string
  | Extract bytes
  | CreateDoc pyobj string

text \<open>
  The services. Each oracle of a stateful service is given the trace so far: its answer
  may depend on everything that happened before. An \<open>Inl\<close> is a raised exception.
  \<^item> \<open>ZipFile b\<close>: \<^verbatim>\<open>zipfile.ZipFile(io.BytesIO(b))\<close>;
  \<^item> \<open>now_strftime\<close>: \<^verbatim>\<open>datetime.now().strftime("%Y-%m-%d_%H-%M-%S")\<close>;
  \<^item> \<open>BASE_FOLDER_ID\<close>: the configured parent folder (line 41);
  \<^item> \<open>drive_folder name parents\<close>: the Drive call of \<^verbatim>\<open>create_drive_folder\<close>, returning the id;
  \<^item> \<open>drive_csv rows filename folder\<close>: the Drive call of \<^verbatim>\<open>upload_csv_to_drive\<close>;
  \<^item> \<open>gemini b\<close>: the body of \<^verbatim>\<open>extract_equipment_data\<close>: opening the image, the model
    call, the removal of code fences and \<^verbatim>\<open>json.loads\<close>, whose value is returned as it is;
  \<^item> \<open>docs_create data folder\<close>: the Drive call of \<^verbatim>\<open>create_equipment_doc\<close> that creates
    the document (line 230), returning its id;
  \<^item> \<open>docs_fill doc_id data\<close>: the Docs calls that write and format the document (lines
    257-366), those inside \<^verbatim>\<open>try: ... except: pass\<close> never raising.
\<close>

record services =
  ZipFile :: "bytes \<Rightarrow> exn + archive"
  now_strftime :: "event list \<Rightarrow> string"
  BASE_FOLDER_ID :: string
  drive_folder :: "event list \<Rightarrow> string \<Rightarrow> string option \<Rightarrow> exn + string"
  drive_csv :: "event list \<Rightarrow> row list \<Rightarrow> string \<Rightarrow> string \<Rightarrow> exn + string"
  gemini :: "event list \<Rightarrow> bytes \<Rightarrow> exn + pyobj"
  docs_create :: "event list \<Rightarrow> pyobj \<Rightarrow> string \<Rightarrow> exn + string"
  docs_fill :: "event list \<Rightarrow> string \<Rightarrow> pyobj \<Rightarrow> exn + unit"

definition BATCH_SIZE :: nat where
  "BATCH_SIZE = 50"

subsection \<open>The service functions\<close>

text \<open>Lines 129-146. \<^verbatim>\<open>if parent_id:\<close> holds for a non-empty id.\<close>

definition create_drive_folder ::
  "services \<Rightarrow> string \<Rightarrow> string \<Rightarrow> event list \<Rightarrow> (exn + string) \<times> event list" where
  "create_drive_folder env folder_name parent_id tr =
     (let parents = (if parent_id \<noteq> [] then Some parent_id else None)
      in (drive_folder env tr folder_name parents, tr @ [DriveFolder folder_name parents]))"

text \<open>Lines 148-168.\<close>

definition upload_csv_to_drive ::
  "services \<Rightarrow> row list \<Rightarrow> string \<Rightarrow> string \<Rightarrow> event list \<Rightarrow> (exn + string) \<times> event list" where
  "upload_csv_to_drive env csv_data filename folder_id tr =
     (drive_csv env tr csv_data filename folder_id, tr @ [DriveCsv csv_data filename folder_id])"

text \<open>Lines 174-210.\<close>

definition extract_equipment_data ::
  "services \<Rightarrow> bytes \<Rightarrow> event list \<Rightarrow> (exn + pyobj) \<times> event list" where
  "extract_equipment_data env image_bytes tr = (gemini env tr image_bytes, tr @ [Extract image_bytes])"

text \<open>
  Lines 216-369. The title reads \<^verbatim>\<open>data['device']\<close> and \<^verbatim>\<open>data['serial']\<close> before the
  document is created; the content lines read \<^verbatim>\<open>data['model']\<close> and
  \<^verbatim>\<open>data['manufacturer']\<close> after it.
\<close>

definition create_equipment_doc ::
  "services \<Rightarrow> pyobj \<Rightarrow> string \<Rightarrow> event list \<Rightarrow> (exn + string) \<times> event list" where
  "create_equipment_doc env d folder_id tr =
     (case getitem d ''device'' of Inl e \<Rightarrow> (Inl e, tr) | Inr device \<Rightarrow>
      (case getitem d ''serial'' of Inl e \<Rightarrow> (Inl e, tr) | Inr serial \<Rightarrow>
       (let tr1 = tr @ [CreateDoc d folder_id] in
        (case docs_create env tr d folder_id of Inl e \<Rightarrow> (Inl e, tr1) | Inr doc_id \<Rightarrow>
         (case getitem d ''model'' of Inl e \<Rightarrow> (Inl e, tr1) | Inr model \<Rightarrow>
          (case getitem d ''manufacturer'' of Inl e \<Rightarrow> (Inl e, tr1) | Inr manufacturer \<Rightarrow>
           (case docs_fill env tr1 doc_id d of
              Inl e \<Rightarrow> (Inl e, tr1)
            | Inr _ \<Rightarrow> (Inr (''https://docs.google.com/document/d/'' @ doc_id @ ''/edit''), tr1))))))))"

subsection \<open>Flattening the uploads (lines 379-393)\<close>

text \<open>The inner loop over \<^verbatim>\<open>z.namelist()\<close>, appending to \<^verbatim>\<open>all_images\<close>.\<close>

fun zip_members :: "archive \<Rightarrow> string list \<Rightarrow> image list \<Rightarrow> exn + image list" where
  "zip_members z [] all_images = Inr all_images"
| "zip_members z (filename # rest) all_images =
     (if has_image_ext filename then
        (case zread z filename of
           Inl e \<Rightarrow> Inl e
         | Inr b \<Rightarrow> zip_members z rest (all_images @ [\<lparr>img_name = filename, img_bytes = b\<rparr>]))
      else zip_members z rest all_images)"

text \<open>The loop over \<^verbatim>\<open>uploaded_files\<close>.\<close>

fun extract_all_images :: "services \<Rightarrow> uploaded_file list \<Rightarrow> image list \<Rightarrow> exn + image list" where
  "extract_all_images env [] all_images = Inr all_images"
| "extract_all_images env (file # rest) all_images =
     (if endswith (name file) ''.zip'' then
        (case ZipFile env (data file) of
           Inl e \<Rightarrow> Inl e
         | Inr z \<Rightarrow>
             (case zip_members z (namelist z) all_images of
                Inl e \<Rightarrow> Inl e
              | Inr all_images' \<Rightarrow> extract_all_images env rest all_images'))
      else extract_all_images env rest
             (all_images @ [\<lparr>img_name = name file, img_bytes = data file\<rparr>]))"

subsection \<open>Splitting into operations (lines 409-412)\<close>

text \<open>\<^verbatim>\<open>range(i, stop, step)\<close> for a positive step (Python raises on step 0).\<close>

function py_range :: "nat \<Rightarrow> nat \<Rightarrow> nat \<Rightarrow> nat list" where
  "py_range i stop step = (if i < stop \<and> 0 < step then i # py_range (i + step) stop step else [])"
  by pat_completeness auto
termination
  by (relation "measure (\<lambda>(i, stop, step). stop - i)") auto

declare py_range.simps [simp del]

text \<open>The slice \<^verbatim>\<open>xs[i:j]\<close> for \<open>0 \<le> i \<le> j\<close>; Python cuts it at the end of the list.\<close>

definition slice :: "'a list \<Rightarrow> nat \<Rightarrow> nat \<Rightarrow> 'a list" where
  "slice xs i j = take (j - i) (drop i xs)"

definition split_operations :: "'a list \<Rightarrow> 'a list list" where
  "split_operations all_images =
     map (\<lambda>i. slice all_images i (i + BATCH_SIZE)) (py_range 0 (length all_images) BATCH_SIZE)"

text \<open>\<^verbatim>\<open>enumerate(xs, start)\<close>.\<close>

fun enumerate_from :: "int \<Rightarrow> 'a list \<Rightarrow> (int \<times> 'a) list" where
  "enumerate_from i [] = []"
| "enumerate_from i (x # xs) = (i, x) # enumerate_from (i + 1) xs"

subsection \<open>Processing (lines 417-502)\<close>

text \<open>The dict of lines 448-457; the four subscripts are evaluated in this order.\<close>

definition success_row :: "int \<Rightarrow> image \<Rightarrow> pyobj \<Rightarrow> string \<Rightarrow> exn + row" where
  "success_row op_idx img d doc_url =
     (case getitem d ''device'' of Inl e \<Rightarrow> Inl e | Inr device \<Rightarrow>
      (case getitem d ''model'' of Inl e \<Rightarrow> Inl e | Inr model \<Rightarrow>
       (case getitem d ''serial'' of Inl e \<Rightarrow> Inl e | Inr serial \<Rightarrow>
        (case getitem d ''manufacturer'' of Inl e \<Rightarrow> Inl e | Inr manufacturer \<Rightarrow>
           Inr [(''operation'', PInt op_idx),
                (''image'', PStr (img_name img)),
                (''device'', device),
                (''model'', model),
                (''serial'', serial),
                (''manufacturer'', manufacturer),
                (''doc_url'', PStr doc_url),
                (''status'', PStr ''SUCCESS'')]))))"

text \<open>The dict of lines 460-465.\<close>

definition failed_row :: "int \<Rightarrow> image \<Rightarrow> exn \<Rightarrow> row" where
  "failed_row op_idx img e =
     [(''operation'', PInt op_idx),
      (''image'', PStr (img_name img)),
      (''error'', PStr (str_exn e)),
      (''status'', PStr ''FAILED'')]"

text \<open>The try statement of lines 441-465: the result dict and the trace after it.\<close>

definition try_image :: "services \<Rightarrow> int \<Rightarrow> string \<Rightarrow> image \<Rightarrow> event list \<Rightarrow> row \<times> event list" where
  "try_image env op_idx op_folder_id img tr =
     (case extract_equipment_data env (img_bytes img) tr of
        (Inl e, tr1) \<Rightarrow> (failed_row op_idx img e, tr1)
      | (Inr d, tr1) \<Rightarrow>
          (case create_equipment_doc env d op_folder_id tr1 of
             (Inl e, tr2) \<Rightarrow> (failed_row op_idx img e, tr2)
           | (Inr doc_url, tr2) \<Rightarrow>
               (case success_row op_idx img d doc_url of
                  Inl e \<Rightarrow> (failed_row op_idx img e, tr2)
                | Inr result \<Rightarrow> (result, tr2))))"

text \<open>
  The inner loop, lines 436-475, over \<^verbatim>\<open>enumerate(operation_images, 1)\<close>. It appends each
  result to \<^verbatim>\<open>operation_results\<close> and to \<^verbatim>\<open>all_results\<close> and reports the progress
  \<^verbatim>\<open>global_idx\<close> of \<^verbatim>\<open>len(all_images)\<close>. The pause of line 475 is left out.
\<close>

fun run_images ::
  "services \<Rightarrow> int \<Rightarrow> string \<Rightarrow> int \<Rightarrow> (int \<times> image) list \<Rightarrow> row list \<Rightarrow> row list \<Rightarrow> event list
     \<Rightarrow> (row list \<times> row list) \<times> event list" where
  "run_images env op_idx op_folder_id len_all_images [] operation_results all_results tr =
     ((operation_results, all_results), tr)"
| "run_images env op_idx op_folder_id len_all_images ((img_idx, img) # rest) operation_results all_results tr =
     (let global_idx = (op_idx - 1) * int BATCH_SIZE + img_idx in
      (case try_image env op_idx op_folder_id img tr of
         (result, tr1) \<Rightarrow>
           run_images env op_idx op_folder_id len_all_images rest
             (operation_results @ [result]) (all_results @ [result])
             (tr1 @ [OverallProgress global_idx len_all_images])))"

text \<open>The outer loop, lines 423-482, over \<^verbatim>\<open>enumerate(operations, 1)\<close>.\<close>

fun run_operations ::
  "services \<Rightarrow> string \<Rightarrow> int \<Rightarrow> (int \<times> image list) list \<Rightarrow> row list \<Rightarrow> event list
     \<Rightarrow> (exn + row list) \<times> event list" where
  "run_operations env master_folder_id len_all_images [] all_results tr = (Inr all_results, tr)"
| "run_operations env master_folder_id len_all_images ((op_idx, operation_images) # rest) all_results tr =
     (case create_drive_folder env (''Operation_'' @ format_03d op_idx) master_folder_id tr of
        (Inl e, tr1) \<Rightarrow> (Inl e, tr1)
      | (Inr op_folder_id, tr1) \<Rightarrow>
          (case run_images env op_idx op_folder_id len_all_images (enumerate_from 1 operation_images)
                  [] all_results tr1 of
             ((operation_results, all_results'), tr2) \<Rightarrow>
               (case upload_csv_to_drive env operation_results ''batch_results.csv'' op_folder_id tr2 of
                  (Inl e, tr3) \<Rightarrow> (Inl e, tr3)
                | (Inr _, tr3) \<Rightarrow> run_operations env master_folder_id len_all_images rest all_results' tr3)))"

text \<open>The dict returned at lines 495-502.\<close>

record summary =
  total :: int
  operations :: int
  success :: int
  failed :: int
  master_folder_url :: string
  results :: "row list"

text \<open>
  \<^verbatim>\<open>len([r for r in all_results if r['status'] == s])\<close>, lines 490-491. Both result dicts
  have the key \<^verbatim>\<open>'status'\<close>, so the subscript does not raise.
\<close>

definition count_status :: "string \<Rightarrow> row list \<Rightarrow> int" where
  "count_status s all_results = int (length (filter (\<lambda>r. map_of r ''status'' = Some (PStr s)) all_results))"

definition no_images_message :: string where
  "no_images_message = [CHR 0xE2, CHR 0x9D, CHR 0x8C] @ '' No valid images found!''"

text \<open>
  \<^verbatim>\<open>process_uploads\<close>: \<open>Inr None\<close> is the \<^verbatim>\<open>return None\<close> of line 397, \<open>Inr (Some s)\<close> the
  returned dict, \<open>Inl e\<close> an exception that leaves the function.
\<close>

definition process_uploads ::
  "services \<Rightarrow> uploaded_file list \<Rightarrow> event list \<Rightarrow> (exn + summary option) \<times> event list" where
  "process_uploads env uploaded_files tr =
     (case extract_all_images env uploaded_files [] of
        Inl e \<Rightarrow> (Inl e, tr)
      | Inr all_images \<Rightarrow>
          if all_images = [] then (Inr None, tr @ [StError no_images_message])
          else
            (case create_drive_folder env (''DME_Upload_'' @ now_strftime env tr)
                    (BASE_FOLDER_ID env) tr of
               (Inl e, tr1) \<Rightarrow> (Inl e, tr1)
             | (Inr master_folder_id, tr1) \<Rightarrow>
                 (case run_operations env master_folder_id (int (length all_images))
                         (enumerate_from 1 (split_operations all_images)) [] tr1 of
                    (Inl e, tr2) \<Rightarrow> (Inl e, tr2)
                  | (Inr all_results, tr2) \<Rightarrow>
                      (case upload_csv_to_drive env all_results ''master_results.csv''
                              master_folder_id tr2 of
                         (Inl e, tr3) \<Rightarrow> (Inl e, tr3)
                       | (Inr _, tr3) \<Rightarrow>
                           (Inr (Some \<lparr>total = int (length all_images),
                                       operations = int (length (split_operations all_images)),
                                       success = count_status ''SUCCESS'' all_results,
                                       failed = count_status ''FAILED'' all_results,
                                       master_folder_url =
                                         ''https://drive.google.com/drive/folders/'' @ master_folder_id,
                                       results = all_results\<rparr>), tr3)))))"

subsection \<open>Reading a trace\<close>

text \<open>The image bytes handed to \<^verbatim>\<open>extract_equipment_data\<close>, in call order.\<close>

fun extract_calls :: "event list \<Rightarrow> bytes list" where
  "extract_calls [] = []"
| "extract_calls (Extract b # tr) = b # extract_calls tr"
| "extract_calls (_ # tr) = extract_calls tr"

text \<open>The CSV uploads: rows, file name and folder id, in call order.\<close>

fun csv_uploads :: "event list \<Rightarrow> (row list \<times> string \<times> string) list" where
  "csv_uploads [] = []"
| "csv_uploads (DriveCsv rows filename folder_id # tr) = (rows, filename, folder_id) # csv_uploads tr"
| "csv_uploads (_ # tr) = csv_uploads tr"

text \<open>The folder creations: name and parent, in call order.\<close>

fun folder_calls :: "event list \<Rightarrow> (string \<times> string option) list" where
  "folder_calls [] = []"
| "folder_calls (DriveFolder folder_name parents # tr) = (folder_name, parents) # folder_calls tr"
| "folder_calls (_ # tr) = folder_calls tr"

text \<open>The documents asked for: data and folder id, in call order.\<close>

fun doc_calls :: "event list \<Rightarrow> (pyobj \<times> string) list" where
  "doc_calls [] = []"
| "doc_calls (CreateDoc d folder_id # tr) = (d, folder_id) # doc_calls tr"
| "doc_calls (_ # tr) = doc_calls tr"

text \<open>The overall progress reports: \<^verbatim>\<open>global_idx\<close> and \<^verbatim>\<open>len(all_images)\<close>, in call order.\<close>

fun progress_reports :: "event list \<Rightarrow> (int \<times> int) list" where
  "progress_reports [] = []"
| "progress_reports (OverallProgress global_idx n # tr) = (global_idx, n) # progress_reports tr"
| "progress_reports (_ # tr) = progress_reports tr"

text \<open>The status tag of a result dict.\<close>

definition has_status :: "string \<Rightarrow> row \<Rightarrow> bool" where
  "has_status s r = (map_of r ''status'' = Some (PStr s))"

text \<open>
  What the try statement can bind to \<^verbatim>\<open>result\<close> for an image of operation \<open>op_idx\<close>:
  the dict of the handler for some exception, or the dict of the try body.
\<close>

definition is_result :: "int \<Rightarrow> image \<Rightarrow> row \<Rightarrow> bool" where
  "is_result op_idx img r =
     ((\<exists>e. r = failed_row op_idx img e) \<or> (\<exists>d doc_url. success_row op_idx img d doc_url = Inr r))"

text \<open>Drive answers every call: no folder creation and no CSV upload raises.\<close>

definition drive_ok :: "services \<Rightarrow> bool" where
  "drive_ok env =
     ((\<forall>tr folder_name parents. \<exists>i. drive_folder env tr folder_name parents = Inr i) \<and>
      (\<forall>tr rows filename folder_id. \<exists>i. drive_csv env tr rows filename folder_id = Inr i))"

text \<open>
  The images one uploaded entry contributes, in the words of the specification: an
  archive gives its members with an image extension, in listing order, each with the
  bytes read from the archive; any other entry gives itself.
\<close>

definition entry_images :: "services \<Rightarrow> uploaded_file \<Rightarrow> image list \<Rightarrow> bool" where
  "entry_images env file part =
     (if endswith (name file) ''.zip'' then
        (case ZipFile env (data file) of
           Inl e \<Rightarrow> False
         | Inr z \<Rightarrow>
             map img_name part = filter has_image_ext (namelist z) \<and>
             list_all (\<lambda>im. zread z (img_name im) = Inr (img_bytes im)) part)
      else part = [\<lparr>img_name = name file, img_bytes = data file\<rparr>])"

subsection \<open>A sample run\<close>

definition demo_fields :: "string \<Rightarrow> pyobj" where
  "demo_fields device =
     PDict [(''device'', PStr device), (''model'', PStr ''M-100''),
            (''serial'', PStr ''SN0001''), (''manufacturer'', PStr ''n/a'')]"

definition txt_archive :: archive where
  "txt_archive = \<lparr>namelist = [''readme.txt'', ''NOTES.TXT''], zread = (\<lambda>n. Inr n)\<rparr>"

definition demo_archive :: archive where
  "demo_archive = \<lparr>namelist = [''a.jpg'', ''notes.txt'', ''B.PNG'', ''lift.jpeg''], zread = (\<lambda>n. Inr n)\<rparr>"

text \<open>
  The model fails on \<open>a.jpg\<close>, answers \<open>B.PNG\<close> with an object that lacks three keys,
  and the document of \<open>lift.jpeg\<close> is refused; folders and CSV uploads always succeed.
\<close>

definition demo_env :: services where
  "demo_env =
     \<lparr>ZipFile = (\<lambda>b.
         if b = ''PK'' then Inr demo_archive
         else if b = ''PKtxt'' then Inr txt_archive
         else Inl (Raised ''File is not a zip file'')),
      now_strftime = (\<lambda>tr. ''2024-05-01_10-30-00''),
      BASE_FOLDER_ID = ''base'',
      drive_folder = (\<lambda>tr folder_name parents. Inr (''id-'' @ folder_name)),
      drive_csv = (\<lambda>tr rows filename folder_id. Inr ''csv''),
      gemini = (\<lambda>tr b.
         if b = ''a.jpg'' then Inl (Raised ''unreadable label'')
         else if b = ''B.PNG'' then Inr (PDict [(''device'', PStr ''Walker'')])
         else if b = ''lift.jpeg'' then Inr (demo_fields ''Lift'')
         else if b = ''PK'' then Inl (Raised ''cannot identify image file'')
         else Inr (demo_fields ''Bed'')),
      docs_create = (\<lambda>tr d folder_id.
         if d = demo_fields ''Lift'' then Inl (Raised ''quota exceeded'') else Inr ''doc1''),
      docs_fill = (\<lambda>tr doc_id d. Inr ())\<rparr>"

definition demo_files :: "uploaded_file list" where
  "demo_files =
     [\<lparr>name = ''scan.zip'', data = ''PK''\<rparr>,
      \<lparr>name = ''bed.jpg'', data = ''bed''\<rparr>,
      \<lparr>name = ''PHOTOS.ZIP'', data = ''PK''\<rparr>]"

text \<open>What the sample run flattens to, and what it returns.\<close>

definition demo_images :: "image list" where
  "demo_images =
     [\<lparr>img_name = ''a.jpg'', img_bytes = ''a.jpg''\<rparr>,
      \<lparr>img_name = ''B.PNG'', img_bytes = ''B.PNG''\<rparr>,
      \<lparr>img_name = ''lift.jpeg'', img_bytes = ''lift.jpeg''\<rparr>,
      \<lparr>img_name = ''bed.jpg'', img_bytes = ''bed''\<rparr>,
      \<lparr>img_name = ''PHOTOS.ZIP'', img_bytes = ''PK''\<rparr>]"

definition demo_results :: "row list" where
  "demo_results =
     [failed_row 1 (demo_images ! 0) (Raised ''unreadable label''),
      failed_row 1 (demo_images ! 1) (KeyError ''serial''),
      failed_row 1 (demo_images ! 2) (Raised ''quota exceeded''),
      [(''operation'', PInt 1), (''image'', PStr ''bed.jpg''),
       (''device'', PStr ''Bed''), (''model'', PStr ''M-100''),
       (''serial'', PStr ''SN0001''), (''manufacturer'', PStr ''n/a''),
       (''doc_url'', PStr ''https://docs.google.com/document/d/doc1/edit''),
       (''status'', PStr ''SUCCESS'')],
      failed_row 1 (demo_images ! 4) (Raised ''cannot identify image file'')]"

definition demo_summary :: summary where
  "demo_summary =
     \<lparr>total = 5, operations = 1, success = 1, failed = 4,
      master_folder_url =
        ''https://drive.google.com/drive/folders/id-DME_Upload_2024-05-01_10-30-00'',
      results = demo_results\<rparr>"

text \<open>An upload of 120 photographs, no archive among them.\<close>

definition many_files :: "uploaded_file list" where
  "many_files = replicate 120 \<lparr>name = ''bed.jpg'', data = ''bed''\<rparr>"

subsection \<open>Shapes of the calls of a run\<close>

text \<open>The folder call the outer loop makes for one enumerated operation (lines 427-428).\<close>

definition op_folder_call :: "string \<Rightarrow> int \<times> image list \<Rightarrow> string \<times> string option" where
  "op_folder_call mid = (\<lambda>(op_idx, imgs).
     (''Operation_'' @ format_03d op_idx, if mid \<noteq> [] then Some mid else None))"

text \<open>The progress reports the inner loop makes for one enumerated operation (lines 437, 472).\<close>

definition op_progress :: "int \<Rightarrow> int \<times> image list \<Rightarrow> (int \<times> int) list" where
  "op_progress n = (\<lambda>(op_idx, imgs).
     map (\<lambda>(i, img). ((op_idx - 1) * int BATCH_SIZE + i, n)) (enumerate_from 1 imgs))"

text \<open>A result list that has one result dict per image of an enumerated operation, in order.\<close>

definition op_results :: "row list \<Rightarrow> int \<times> image list \<Rightarrow> bool" where
  "op_results g = (\<lambda>(op_idx, imgs). list_all2 (\<lambda>r img. is_result op_idx img r) g imgs)"

text \<open>The parents entry of the master folder call (lines 138-139, 406).\<close>

definition master_parents :: "services \<Rightarrow> string option" where
  "master_parents env = (if BASE_FOLDER_ID env \<noteq> [] then Some (BASE_FOLDER_ID env) else None)"

text \<open>\<^verbatim>\<open>master_folder_name\<close>, lines 402-403.\<close>

definition master_name :: "services \<Rightarrow> event list \<Rightarrow> string" where
  "master_name env tr = ''DME_Upload_'' @ now_strftime env tr"

section \<open>Auxiliary facts\<close>

lemma extract_calls_append: "extract_calls (xs @ ys) = extract_calls xs @ extract_calls ys"
  by (induction xs rule: extract_calls.induct) simp_all

lemma csv_uploads_append: "csv_uploads (xs @ ys) = csv_uploads xs @ csv_uploads ys"
  by (induction xs rule: csv_uploads.induct) simp_all

lemma folder_calls_append: "folder_calls (xs @ ys) = folder_calls xs @ folder_calls ys"
  by (induction xs rule: folder_calls.induct) simp_all

lemma doc_calls_append: "doc_calls (xs @ ys) = doc_calls xs @ doc_calls ys"
  by (induction xs rule: doc_calls.induct) simp_all

lemma progress_reports_append:
  "progress_reports (xs @ ys) = progress_reports xs @ progress_reports ys"
  by (induction xs rule: progress_reports.induct) simp_all

lemmas trace_append =
  extract_calls_append csv_uploads_append folder_calls_append doc_calls_append
  progress_reports_append

lemma endswith_iff: "endswith s suf \<longleftrightarrow> (\<exists>p. s = p @ suf)"
proof
  assume "endswith s suf"
  then have "s = take (length s - length suf) s @ suf"
    by (metis append_take_drop_id endswith_def)
  then show "\<exists>p. s = p @ suf" ..
next
  assume "\<exists>p. s = p @ suf"
  then show "endswith s suf" by (auto simp: endswith_def)
qed

lemma zip_members_images:
  "zip_members z ns acc = Inr r \<Longrightarrow>
     \<exists>part. r = acc @ part \<and> map img_name part = filter has_image_ext ns \<and>
            list_all (\<lambda>im. zread z (img_name im) = Inr (img_bytes im)) part"
proof (induction ns arbitrary: acc)
  case Nil
  then show ?case by simp
next
  case (Cons n ns)
  show ?case
  proof (cases "has_image_ext n")
    case False
    with Cons show ?thesis by simp
  next
    case True
    with Cons.prems obtain b where b: "zread z n = Inr b"
      and r: "zip_members z ns (acc @ [\<lparr>img_name = n, img_bytes = b\<rparr>]) = Inr r"
      by (auto split: sum.splits)
    from Cons.IH[OF r] obtain part where
      "r = (acc @ [\<lparr>img_name = n, img_bytes = b\<rparr>]) @ part"
      "map img_name part = filter has_image_ext ns"
      "list_all (\<lambda>im. zread z (img_name im) = Inr (img_bytes im)) part"
      by blast
    with True b show ?thesis
      by (intro exI[of _ "\<lparr>img_name = n, img_bytes = b\<rparr> # part"]) simp
  qed
qed

lemma extract_all_images_parts:
  "extract_all_images env files acc = Inr r \<Longrightarrow>
     \<exists>parts. list_all2 (entry_images env) files parts \<and> r = acc @ concat parts"
proof (induction files arbitrary: acc)
  case Nil
  then show ?case by simp
next
  case (Cons f files)
  show ?case
  proof (cases "endswith (name f) ''.zip''")
    case False
    with Cons.prems have
      "extract_all_images env files (acc @ [\<lparr>img_name = name f, img_bytes = data f\<rparr>]) = Inr r"
      by simp
    from Cons.IH[OF this] obtain parts where
      "list_all2 (entry_images env) files parts"
      "r = (acc @ [\<lparr>img_name = name f, img_bytes = data f\<rparr>]) @ concat parts"
      by blast
    moreover from False have "entry_images env f [\<lparr>img_name = name f, img_bytes = data f\<rparr>]"
      by (simp add: entry_images_def)
    ultimately show ?thesis
      by (intro exI[of _ "[\<lparr>img_name = name f, img_bytes = data f\<rparr>] # parts"]) simp
  next
    case True
    with Cons.prems obtain z acc' where z: "ZipFile env (data f) = Inr z"
      and m: "zip_members z (namelist z) acc = Inr acc'"
      and r: "extract_all_images env files acc' = Inr r"
      by (auto split: sum.splits)
    from zip_members_images[OF m] obtain part where part:
      "acc' = acc @ part" "map img_name part = filter has_image_ext (namelist z)"
      "list_all (\<lambda>im. zread z (img_name im) = Inr (img_bytes im)) part"
      by blast
    from Cons.IH[OF r] obtain parts where
      "list_all2 (entry_images env) files parts" "r = acc' @ concat parts"
      by blast
    moreover from True z part have "entry_images env f part"
      by (simp add: entry_images_def)
    ultimately show ?thesis using part(1)
      by (intro exI[of _ "part # parts"]) simp
  qed
qed

lemma success_row_fields:
  assumes "success_row op_idx img d doc_url = Inr r"
  shows "\<exists>device model serial manufacturer.
           getitem d ''device'' = Inr device \<and> getitem d ''model'' = Inr model \<and>
           getitem d ''serial'' = Inr serial \<and> getitem d ''manufacturer'' = Inr manufacturer \<and>
           r = [(''operation'', PInt op_idx), (''image'', PStr (img_name img)),
                (''device'', device), (''model'', model), (''serial'', serial),
                (''manufacturer'', manufacturer), (''doc_url'', PStr doc_url),
                (''status'', PStr ''SUCCESS'')]"
  using assms by (auto simp: success_row_def split: sum.splits)

lemma is_result_status:
  "is_result op_idx img r \<Longrightarrow> has_status ''SUCCESS'' r \<noteq> has_status ''FAILED'' r"
  by (auto simp: is_result_def has_status_def failed_row_def dest!: success_row_fields)

lemma is_result_operation:
  "is_result op_idx img r \<Longrightarrow> map_of r ''operation'' = Some (PInt op_idx)"
  by (auto simp: is_result_def failed_row_def dest!: success_row_fields)

lemma is_result_image:
  "is_result op_idx img r \<Longrightarrow> map_of r ''image'' = Some (PStr (img_name img))"
  by (auto simp: is_result_def failed_row_def dest!: success_row_fields)

lemma try_image_is_result: "is_result op_idx img (fst (try_image env op_idx op_folder_id img tr))"
  by (auto simp: try_image_def is_result_def split: prod.splits sum.splits)

lemma try_image_trace:
  "try_image env op_idx op_folder_id img tr = (r, tr') \<Longrightarrow>
     extract_calls tr' = extract_calls tr @ [img_bytes img] \<and>
     csv_uploads tr' = csv_uploads tr \<and> folder_calls tr' = folder_calls tr \<and>
     progress_reports tr' = progress_reports tr"
  by (auto simp: try_image_def extract_equipment_data_def create_equipment_doc_def trace_append Let_def
           split: prod.splits sum.splits)

lemma run_images_char:
  "run_images env op_idx fid n (enumerate_from k imgs) oprs alls tr = ((oprs', alls'), tr') \<Longrightarrow>
   \<exists>rs. oprs' = oprs @ rs \<and> alls' = alls @ rs \<and>
        list_all2 (\<lambda>r img. is_result op_idx img r) rs imgs \<and>
        extract_calls tr' = extract_calls tr @ map img_bytes imgs \<and>
        csv_uploads tr' = csv_uploads tr \<and> folder_calls tr' = folder_calls tr \<and>
        progress_reports tr' = progress_reports tr @
          map (\<lambda>(i, img). ((op_idx - 1) * int BATCH_SIZE + i, n)) (enumerate_from k imgs)"
proof (induction imgs arbitrary: k oprs alls tr)
  case Nil
  then show ?case by simp
next
  case (Cons img imgs)
  obtain r tr1 where t: "try_image env op_idx fid img tr = (r, tr1)"
    by (cases "try_image env op_idx fid img tr")
  let ?tr2 = "tr1 @ [OverallProgress ((op_idx - 1) * int BATCH_SIZE + k) n]"
  from Cons.prems t have
    "run_images env op_idx fid n (enumerate_from (k + 1) imgs) (oprs @ [r]) (alls @ [r]) ?tr2
       = ((oprs', alls'), tr')"
    by (simp add: Let_def)
  from Cons.IH[OF this] obtain rs where rs:
    "oprs' = (oprs @ [r]) @ rs" "alls' = (alls @ [r]) @ rs"
    "list_all2 (\<lambda>r img. is_result op_idx img r) rs imgs"
    "extract_calls tr' = extract_calls ?tr2 @ map img_bytes imgs"
    "csv_uploads tr' = csv_uploads ?tr2" "folder_calls tr' = folder_calls ?tr2"
    "progress_reports tr' = progress_reports ?tr2 @
       map (\<lambda>(i, img). ((op_idx - 1) * int BATCH_SIZE + i, n)) (enumerate_from (k + 1) imgs)"
    by blast
  from try_image_is_result[of op_idx img env fid tr] t have res: "is_result op_idx img r" by simp
  note tt = try_image_trace[OF t]
  show ?case
  proof (intro exI[of _ "r # rs"] conjI)
    show "oprs' = oprs @ r # rs" using rs(1) by simp
    show "alls' = alls @ r # rs" using rs(2) by simp
    show "list_all2 (\<lambda>r img. is_result op_idx img r) (r # rs) (img # imgs)"
      using rs(3) res by simp
    show "extract_calls tr' = extract_calls tr @ map img_bytes (img # imgs)"
      using rs(4) tt by (simp add: trace_append)
    show "csv_uploads tr' = csv_uploads tr" using rs(5) tt by (simp add: trace_append)
    show "folder_calls tr' = folder_calls tr" using rs(6) tt by (simp add: trace_append)
    show "progress_reports tr' = progress_reports tr @
            map (\<lambda>(i, img). ((op_idx - 1) * int BATCH_SIZE + i, n)) (enumerate_from k (img # imgs))"
      using rs(7) tt by (simp add: trace_append)
  qed
qed

lemma run_operations_char:
  "run_operations env mid n eops alls tr = (Inr alls', tr') \<Longrightarrow>
   \<exists>groups fids. length fids = length eops \<and>
      list_all2 op_results groups eops \<and>
      alls' = alls @ concat groups \<and>
      extract_calls tr' = extract_calls tr @ map img_bytes (concat (map snd eops)) \<and>
      csv_uploads tr' = csv_uploads tr @
        map (\<lambda>(g, fid). (g, ''batch_results.csv'', fid)) (zip groups fids) \<and>
      folder_calls tr' = folder_calls tr @ map (op_folder_call mid) eops \<and>
      progress_reports tr' = progress_reports tr @ concat (map (op_progress n) eops)"
proof (induction eops arbitrary: alls tr)
  case Nil
  then show ?case by simp
next
  case (Cons eop eops)
  obtain op_idx imgs where eop: "eop = (op_idx, imgs)" by (cases eop)
  let ?parents = "if mid \<noteq> [] then Some mid else None"
  let ?tr1 = "tr @ [DriveFolder (''Operation_'' @ format_03d op_idx) ?parents]"
  from Cons.prems eop obtain fid where
    fid: "drive_folder env tr (''Operation_'' @ format_03d op_idx) ?parents = Inr fid"
    by (cases "drive_folder env tr (''Operation_'' @ format_03d op_idx) ?parents")
       (auto simp: create_drive_folder_def Let_def)
  obtain g alls1 tr2 where
    ri: "run_images env op_idx fid n (enumerate_from 1 imgs) [] alls ?tr1 = ((g, alls1), tr2)"
    by (metis surj_pair)
  let ?tr3 = "tr2 @ [DriveCsv g ''batch_results.csv'' fid]"
  from Cons.prems eop fid ri have
    rest: "run_operations env mid n eops alls1 ?tr3 = (Inr alls', tr')"
    by (cases "drive_csv env tr2 g ''batch_results.csv'' fid")
       (auto simp: create_drive_folder_def upload_csv_to_drive_def Let_def)
  from run_images_char[OF ri] have g:
    "alls1 = alls @ g" "list_all2 (\<lambda>r img. is_result op_idx img r) g imgs"
    "extract_calls tr2 = extract_calls ?tr1 @ map img_bytes imgs"
    "csv_uploads tr2 = csv_uploads ?tr1" "folder_calls tr2 = folder_calls ?tr1"
    "progress_reports tr2 = progress_reports ?tr1 @
       map (\<lambda>(i, img). ((op_idx - 1) * int BATCH_SIZE + i, n)) (enumerate_from 1 imgs)"
    by auto
  from Cons.IH[OF rest] obtain groups fids where gs:
    "length fids = length eops" "list_all2 op_results groups eops"
    "alls' = alls1 @ concat groups"
    "extract_calls tr' = extract_calls ?tr3 @ map img_bytes (concat (map snd eops))"
    "csv_uploads tr' = csv_uploads ?tr3 @
        map (\<lambda>(g, fid). (g, ''batch_results.csv'', fid)) (zip groups fids)"
    "folder_calls tr' = folder_calls ?tr3 @ map (op_folder_call mid) eops"
    "progress_reports tr' = progress_reports ?tr3 @ concat (map (op_progress n) eops)"
    by blast
  show ?case
  proof (intro exI[of _ "g # groups"] exI[of _ "fid # fids"] conjI)
    show "length (fid # fids) = length (eop # eops)" using gs(1) by simp
    show "list_all2 op_results (g # groups) (eop # eops)"
      using gs(2) g(2) eop by (simp add: op_results_def)
    show "alls' = alls @ concat (g # groups)" using gs(3) g(1) by simp
    show "extract_calls tr' = extract_calls tr @ map img_bytes (concat (map snd (eop # eops)))"
      using gs(4) g(3) eop by (simp add: trace_append)
    show "csv_uploads tr' = csv_uploads tr @
            map (\<lambda>(g, fid). (g, ''batch_results.csv'', fid)) (zip (g # groups) (fid # fids))"
      using gs(5) g(4) by (simp add: trace_append)
    show "folder_calls tr' = folder_calls tr @ map (op_folder_call mid) (eop # eops)"
      using gs(6) g(5) eop by (simp add: trace_append op_folder_call_def)
    show "progress_reports tr' = progress_reports tr @ concat (map (op_progress n) (eop # eops))"
      using gs(7) g(6) eop by (simp add: trace_append op_progress_def)
  qed
qed

lemma run_operations_completes:
  "drive_ok env \<Longrightarrow> \<exists>alls' tr'. run_operations env mid n eops alls tr = (Inr alls', tr')"
proof (induction eops arbitrary: alls tr)
  case Nil
  then show ?case by simp
next
  case (Cons eop eops)
  obtain op_idx imgs where eop: "eop = (op_idx, imgs)" by (cases eop)
  let ?parents = "if mid \<noteq> [] then Some mid else None"
  let ?tr1 = "tr @ [DriveFolder (''Operation_'' @ format_03d op_idx) ?parents]"
  from Cons.prems obtain fid where
    fid: "drive_folder env tr (''Operation_'' @ format_03d op_idx) ?parents = Inr fid"
    unfolding drive_ok_def by blast
  obtain g alls1 tr2 where
    ri: "run_images env op_idx fid n (enumerate_from 1 imgs) [] alls ?tr1 = ((g, alls1), tr2)"
    by (metis surj_pair)
  from Cons.prems obtain c where c: "drive_csv env tr2 g ''batch_results.csv'' fid = Inr c"
    unfolding drive_ok_def by blast
  from Cons.IH[OF Cons.prems, of alls1 "tr2 @ [DriveCsv g ''batch_results.csv'' fid]"]
  show ?case using eop fid ri c
    by (simp add: create_drive_folder_def upload_csv_to_drive_def Let_def)
qed

lemma length_enumerate_from: "length (enumerate_from k xs) = length xs"
  by (induction xs arbitrary: k) simp_all

lemma map_snd_enumerate_from: "map snd (enumerate_from k xs) = xs"
  by (induction xs arbitrary: k) simp_all

lemma nth_enumerate_from: "q < length xs \<Longrightarrow> enumerate_from k xs ! q = (k + int q, xs ! q)"
proof (induction xs arbitrary: k q)
  case Nil
  then show ?case by simp
next
  case (Cons x xs)
  then show ?case by (cases q) (simp_all add: algebra_simps)
qed

lemma length_slice: "length (slice xs i (i + 50)) = min (i + 50) (length xs) - i"
  by (simp add: slice_def)

lemma nth_slice: "q < min (i + 50) (length xs) - i \<Longrightarrow> slice xs i (i + 50) ! q = xs ! (i + q)"
  by (simp add: slice_def)

lemma head_positions:
  assumes "i = 50 * m"
  shows "map (\<lambda>(j, img). f (int m + 1) j img) (enumerate_from 1 (slice xs i (i + 50)))
       = map (\<lambda>p. f (int (p div 50) + 1) (int (p mod 50) + 1) (xs ! p)) [i..<min (i + 50) (length xs)]"
proof (rule nth_equalityI)
  show "length (map (\<lambda>(j, img). f (int m + 1) j img) (enumerate_from 1 (slice xs i (i + 50))))
      = length (map (\<lambda>p. f (int (p div 50) + 1) (int (p mod 50) + 1) (xs ! p)) [i..<min (i + 50) (length xs)])"
    by (simp add: length_enumerate_from length_slice)
next
  fix q
  assume "q < length (map (\<lambda>(j, img). f (int m + 1) j img) (enumerate_from 1 (slice xs i (i + 50))))"
  then have q: "q < min (i + 50) (length xs) - i"
    by (simp add: length_enumerate_from length_slice)
  then have q50: "q < 50" by simp
  from assms q50 have d: "(i + q) div 50 = m" and m: "(i + q) mod 50 = q" by simp_all
  from q have "q < length (slice xs i (i + 50))" by (simp add: length_slice)
  then have "map (\<lambda>(j, img). f (int m + 1) j img) (enumerate_from 1 (slice xs i (i + 50))) ! q
      = f (int m + 1) (1 + int q) (slice xs i (i + 50) ! q)"
    by (simp add: length_enumerate_from nth_enumerate_from)
  also have "\<dots> = f (int m + 1) (1 + int q) (xs ! (i + q))"
    using q by (simp add: nth_slice)
  also have "\<dots> = map (\<lambda>p. f (int (p div 50) + 1) (int (p mod 50) + 1) (xs ! p)) [i..<min (i + 50) (length xs)] ! q"
  proof -
    from q have "i + q < min (i + 50) (length xs)" by arith
    then have "[i..<min (i + 50) (length xs)] ! q = i + q" by (rule nth_upt)
    with q d m show ?thesis by (simp add: add.commute)
  qed
  finally show "map (\<lambda>(j, img). f (int m + 1) j img) (enumerate_from 1 (slice xs i (i + 50))) ! q
     = map (\<lambda>p. f (int (p div 50) + 1) (int (p mod 50) + 1) (xs ! p)) [i..<min (i + 50) (length xs)] ! q" .
qed

lemma split_positions_from:
  "i = 50 * m \<Longrightarrow>
   concat (map (\<lambda>(op_idx, imgs). map (\<lambda>(j, img). f op_idx j img) (enumerate_from 1 imgs))
             (enumerate_from (int m + 1) (map (\<lambda>i. slice xs i (i + 50)) (py_range i (length xs) 50))))
   = map (\<lambda>p. f (int (p div 50) + 1) (int (p mod 50) + 1) (xs ! p)) [i..<length xs]"
proof (induction i "length xs" "50::nat" arbitrary: m rule: py_range.induct)
  case (1 i)
  show ?case
  proof (cases "i < length xs")
    case False
    then show ?thesis by (subst py_range.simps) simp
  next
    case True
    have s: "i + 50 = 50 * Suc m" using 1(2) by simp
    from True have c: "i < length xs \<and> (0::nat) < 50" by simp
    have IH:
      "concat (map (\<lambda>(op_idx, imgs). map (\<lambda>(j, img). f op_idx j img) (enumerate_from 1 imgs))
             (enumerate_from (int (Suc m) + 1) (map (\<lambda>i. slice xs i (i + 50)) (py_range (i + 50) (length xs) 50))))
       = map (\<lambda>p. f (int (p div 50) + 1) (int (p mod 50) + 1) (xs ! p)) [i + 50..<length xs]"
      by (rule 1(1)[OF c s])
    have u: "[i..<length xs] = [i..<min (i + 50) (length xs)] @ [i + 50..<length xs]"
    proof (cases "i + 50 \<le> length xs")
      case True
      then obtain k where k: "length xs = i + 50 + k" by (metis le_Suc_ex)
      have "[i..<i + 50 + k] = [i..<i + 50] @ [i + 50..<i + 50 + k]"
        by (rule upt_add_eq_append) simp
      with k show ?thesis by (simp add: min_def)
    next
      case False
      then show ?thesis by (simp add: min_def)
    qed
    have a: "int (Suc m) + 1 = int m + 1 + 1" by simp
    have unfold: "py_range i (length xs) 50 = i # py_range (i + 50) (length xs) 50"
      using True by (subst py_range.simps) simp
    have "concat (map (\<lambda>(op_idx, imgs). map (\<lambda>(j, img). f op_idx j img) (enumerate_from 1 imgs))
             (enumerate_from (int m + 1) (map (\<lambda>i. slice xs i (i + 50)) (py_range i (length xs) 50))))
       = map (\<lambda>(j, img). f (int m + 1) j img) (enumerate_from 1 (slice xs i (i + 50))) @
         concat (map (\<lambda>(op_idx, imgs). map (\<lambda>(j, img). f op_idx j img) (enumerate_from 1 imgs))
             (enumerate_from (int (Suc m) + 1) (map (\<lambda>i. slice xs i (i + 50)) (py_range (i + 50) (length xs) 50))))"
      unfolding unfold a by simp
    also have "\<dots> = map (\<lambda>p. f (int (p div 50) + 1) (int (p mod 50) + 1) (xs ! p)) [i..<min (i + 50) (length xs)]
         @ map (\<lambda>p. f (int (p div 50) + 1) (int (p mod 50) + 1) (xs ! p)) [i + 50..<length xs]"
      unfolding IH head_positions[OF 1(2)] ..
    also have "\<dots> = map (\<lambda>p. f (int (p div 50) + 1) (int (p mod 50) + 1) (xs ! p)) [i..<length xs]"
      unfolding u[symmetric] map_append[symmetric] ..
    finally show ?thesis .
  qed
qed

lemma split_positions:
  "concat (map (\<lambda>(op_idx, imgs). map (\<lambda>(j, img). f op_idx j img) (enumerate_from 1 imgs))
             (enumerate_from 1 (split_operations xs)))
   = map (\<lambda>p. f (int (p div 50) + 1) (int (p mod 50) + 1) (xs ! p)) [0..<length xs]"
  using split_positions_from[of 0 0 f xs] by (simp add: split_operations_def BATCH_SIZE_def)

lemma concat_slices:
  "concat (map (\<lambda>i. slice xs i (i + 50)) (py_range k (length xs) 50)) = drop k xs"
proof (induction k "length xs" "50::nat" rule: py_range.induct)
  case (1 i)
  show ?case
  proof (cases "i < length xs")
    case True
    have "take 50 (drop i xs) @ drop (i + 50) xs = drop i xs"
      by (metis add.commute append_take_drop_id drop_drop)
    with True 1 show ?thesis
      by (subst py_range.simps) (simp add: slice_def)
  next
    case False
    then show ?thesis by (subst py_range.simps) simp
  qed
qed

lemma div50_step: "i < stop \<Longrightarrow> Suc ((stop - (i + 50) + 49) div 50) = (stop - i + 49) div (50::nat)"
proof (cases "i + 50 \<le> stop")
  case True
  then have "stop - i + 49 = (stop - (i + 50) + 49) + 50" by simp
  then show ?thesis by (metis div_add_self2 zero_neq_numeral Suc_eq_plus1)
next
  case False
  assume "i < stop"
  with False have a: "stop - (i + 50) = 0" and b: "50 \<le> stop - i + 49" and c: "stop - i + 49 < 100"
    by simp_all
  from b c have "(stop - i + 49) div 50 = 1"
    by (simp add: div_nat_eqI)
  with a show ?thesis by simp
qed

lemma length_py_range_50: "length (py_range k n 50) = (n - k + 49) div 50"
proof (induction k n "50::nat" rule: py_range.induct)
  case (1 i stop)
  show ?case
  proof (cases "i < stop")
    case True
    with 1 have "length (py_range (i + 50) stop 50) = (stop - (i + 50) + 49) div 50" by simp
    with True div50_step[OF True] show ?thesis
      by (subst py_range.simps) simp
  next
    case False
    then show ?thesis by (subst py_range.simps) simp
  qed
qed

lemma ceil50: "int ((n + 49) div 50) = \<lceil>real n / 50\<rceil>"
proof -
  have "\<lceil>real n / 50\<rceil> = \<lceil>real_of_int (int n) / real_of_int 50\<rceil>" by simp
  also have "\<dots> = - (- int n div 50)" by (rule ceiling_divide_eq_div)
  also have "\<dots> = int ((n + 49) div 50)" by (simp add: zdiv_int)
  finally show ?thesis by simp
qed

lemma slices_sizes:
  "k < length xs \<Longrightarrow>
     (let ops = map (\<lambda>i. slice xs i (i + 50)) (py_range k (length xs) 50) in
        ops \<noteq> [] \<and> (\<forall>g \<in> set (butlast ops). length g = 50)
        \<and> length (last ops) = (if (length xs - k) mod 50 = 0 then 50 else (length xs - k) mod 50))"
proof (induction k "length xs" "50::nat" rule: py_range.induct)
  case (1 i)
  show ?case
  proof (cases "i + 50 < length xs")
    case True
    with 1 have IH: "(let ops = map (\<lambda>i. slice xs i (i + 50)) (py_range (i + 50) (length xs) 50) in
        ops \<noteq> [] \<and> (\<forall>g \<in> set (butlast ops). length g = 50)
        \<and> length (last ops) = (if (length xs - (i + 50)) mod 50 = 0 then 50 else (length xs - (i + 50)) mod 50))"
      by simp
    have "length xs - i = (length xs - (i + 50)) + 50" using True by simp
    then have m: "(length xs - (i + 50)) mod 50 = (length xs - i) mod 50"
      by (metis mod_add_self2)
    from True have h: "length (slice xs i (i + 50)) = 50" by (simp add: slice_def)
    show ?thesis
      using True IH h m 1(2) by (subst py_range.simps) (simp add: Let_def)
  next
    case False
    with 1(2) have e: "py_range (i + 50) (length xs) 50 = []" by (subst py_range.simps) simp
    from False 1(2) have h: "length (slice xs i (i + 50)) = length xs - i" by (simp add: slice_def)
    from False 1(2) have "length xs - i \<le> 50" "0 < length xs - i" by simp_all
    then have "(if (length xs - i) mod 50 = 0 then 50 else (length xs - i) mod 50) = length xs - i"
      by (cases "length xs - i = 50") auto
    with e h 1(2) show ?thesis
      by (subst py_range.simps) (simp add: Let_def)
  qed
qed

lemma process_uploads_char:
  assumes "process_uploads env files tr = (Inr (Some s), tr')"
  shows "\<exists>all_images mid tr2.
           extract_all_images env files [] = Inr all_images \<and> all_images \<noteq> [] \<and>
           drive_folder env tr (master_name env tr) (master_parents env) = Inr mid \<and>
           run_operations env mid (int (length all_images))
             (enumerate_from 1 (split_operations all_images)) []
             (tr @ [DriveFolder (master_name env tr) (master_parents env)]) = (Inr (results s), tr2) \<and>
           tr' = tr2 @ [DriveCsv (results s) ''master_results.csv'' mid] \<and>
           s = \<lparr>total = int (length all_images),
                operations = int (length (split_operations all_images)),
                success = count_status ''SUCCESS'' (results s),
                failed = count_status ''FAILED'' (results s),
                master_folder_url = ''https://drive.google.com/drive/folders/'' @ mid,
                results = results s\<rparr>"
  using assms
  by (auto simp: process_uploads_def create_drive_folder_def upload_csv_to_drive_def Let_def
                 master_name_def master_parents_def
           split: sum.splits if_splits prod.splits)

lemma process_uploads_completes:
  assumes "drive_ok env" and "extract_all_images env files [] = Inr all_images" and "all_images \<noteq> []"
  shows "\<exists>s tr'. process_uploads env files tr = (Inr (Some s), tr')"
proof -
  from assms(1) obtain mid where
    mid: "drive_folder env tr (master_name env tr) (master_parents env) = Inr mid"
    unfolding drive_ok_def by blast
  from run_operations_completes[OF assms(1)] obtain alls tr2 where
    ro: "run_operations env mid (int (length all_images))
             (enumerate_from 1 (split_operations all_images)) []
             (tr @ [DriveFolder (master_name env tr) (master_parents env)]) = (Inr alls, tr2)"
    by blast
  from assms(1) obtain c where c: "drive_csv env tr2 alls ''master_results.csv'' mid = Inr c"
    unfolding drive_ok_def by blast
  show ?thesis
    using assms(2,3) mid ro c
    by (simp add: process_uploads_def create_drive_folder_def upload_csv_to_drive_def Let_def
                  master_name_def master_parents_def)
qed

lemma map_enumerate_const:
  "map (\<lambda>(j, img). g img) (enumerate_from k imgs) = map g imgs"
  by (induction imgs arbitrary: k) simp_all

lemma op_results_concat:
  "list_all2 op_results groups eops \<Longrightarrow>
     list_all2 (\<lambda>r (op_idx, img). is_result op_idx img r) (concat groups)
       (concat (map (\<lambda>(op_idx, imgs). map (\<lambda>(j, img). (op_idx, img)) (enumerate_from 1 imgs)) eops))"
proof (induction rule: list_all2_induct)
  case Nil
  then show ?case by simp
next
  case (Cons g groups eop eops)
  obtain op_idx imgs where eop: "eop = (op_idx, imgs)" by (cases eop)
  from Cons(1) eop have "list_all2 (\<lambda>r img. is_result op_idx img r) g imgs"
    by (simp add: op_results_def)
  then have "list_all2 (\<lambda>r (op_idx, img). is_result op_idx img r) g
               (map (\<lambda>(j, img). (op_idx, img)) (enumerate_from 1 imgs))"
    by (simp add: map_enumerate_const list_all2_map2)
  with Cons(3) eop show ?case by (simp add: list_all2_appendI)
qed

lemma op_results_sizes:
  "list_all2 op_results groups (enumerate_from k ops) \<Longrightarrow>
     list_all2 (\<lambda>g imgs. length g = length imgs) groups ops"
proof (induction ops arbitrary: k groups)
  case Nil
  then show ?case by simp
next
  case (Cons imgs ops)
  then show ?case
    by (cases groups) (auto simp: op_results_def dest: list_all2_lengthD)
qed

lemma concat_split_operations: "concat (split_operations xs) = xs"
  using concat_slices[of xs 0] by (simp add: split_operations_def BATCH_SIZE_def)

lemma rows_by_position:
  assumes "list_all2 op_results groups (enumerate_from 1 (split_operations xs))"
  shows "list_all2 (\<lambda>r p. is_result (int (p div 50) + 1) (xs ! p) r) (concat groups) [0..<length xs]"
proof -
  from op_results_concat[OF assms]
  have "list_all2 (\<lambda>r (op_idx, img). is_result op_idx img r) (concat groups)
          (map (\<lambda>p. (int (p div 50) + 1, xs ! p)) [0..<length xs])"
    by (simp only: split_positions[of "\<lambda>op_idx j img. (op_idx, img)" xs])
  then show ?thesis by (simp add: list_all2_map2)
qed

lemma progress_by_position:
  "concat (map (op_progress n) (enumerate_from 1 (split_operations xs)))
     = map (\<lambda>p. (int p + 1, n)) [0..<length xs]"
proof -
  have "concat (map (op_progress n) (enumerate_from 1 (split_operations xs)))
      = map (\<lambda>p. ((int (p div 50) + 1 - 1) * int BATCH_SIZE + (int (p mod 50) + 1), n)) [0..<length xs]"
    unfolding op_progress_def
    by (rule split_positions[of "\<lambda>op_idx j img. ((op_idx - 1) * int BATCH_SIZE + j, n)" xs])
  also have "\<dots> = map (\<lambda>p. (int p + 1, n)) [0..<length xs]"
  proof (rule map_cong[OF refl])
    fix p
    have "int (p div 50) * 50 + int (p mod 50) = int p"
      by (metis div_mult_mod_eq of_nat_add of_nat_mult of_nat_numeral)
    then show "((int (p div 50) + 1 - 1) * int BATCH_SIZE + (int (p mod 50) + 1), n) = (int p + 1, n)"
      by (simp add: BATCH_SIZE_def)
  qed
  finally show ?thesis .
qed

lemma count_status_split:
  "\<forall>r \<in> set rs. has_status ''SUCCESS'' r \<noteq> has_status ''FAILED'' r \<Longrightarrow>
     count_status ''SUCCESS'' rs + count_status ''FAILED'' rs = int (length rs)"
  by (induction rs) (auto simp: count_status_def has_status_def)

lemma demo_flatten: "extract_all_images demo_env demo_files [] = Inr demo_images"
  by code_simp

lemma demo_drive_ok: "drive_ok demo_env"
  by (simp add: drive_ok_def demo_env_def)

lemma demo_run_fst: "fst (process_uploads demo_env demo_files []) = Inr (Some demo_summary)"
  by code_simp

lemma demo_run: "\<exists>tr'. process_uploads demo_env demo_files [] = (Inr (Some demo_summary), tr')"
  by (metis demo_run_fst prod.collapse)

lemma rows_nth:
  assumes "list_all2 op_results groups (enumerate_from 1 (split_operations xs))"
  shows "length (concat groups) = length xs"
    and "p < length xs \<Longrightarrow> is_result (int (p div 50) + 1) (xs ! p) (concat groups ! p)"
proof -
  note r = rows_by_position[OF assms]
  from r show l: "length (concat groups) = length xs"
    by (auto dest: list_all2_lengthD)
  assume p: "p < length xs"
  with l have "p < length (concat groups)" by simp
  from list_all2_nthD[OF r this]
  have "is_result (int ([0..<length xs] ! p div 50) + 1) (xs ! ([0..<length xs] ! p))
                 (concat groups ! p)" .
  with p show "is_result (int (p div 50) + 1) (xs ! p) (concat groups ! p)" by simp
qed

lemma split_single: "split_operations [x] = [[x]]"
  by (simp add: split_operations_def py_range.simps slice_def BATCH_SIZE_def)

lemma format_03d_1: "format_03d 1 = ''001''"
  by code_simp

lemma try_image_extract_fails:
  "gemini env tr (img_bytes img) = Inl e \<Longrightarrow>
     try_image env op_idx fid img tr = (failed_row op_idx img e, tr @ [Extract (img_bytes img)])"
  by (simp add: try_image_def extract_equipment_data_def)

lemma run_facts:
  assumes "process_uploads env uploaded_files tr = (Inr (Some s), tr')"
  shows "\<exists>all_images groups fids mid.
      extract_all_images env uploaded_files [] = Inr all_images \<and> all_images \<noteq> [] \<and>
      drive_folder env tr (master_name env tr) (master_parents env) = Inr mid \<and>
      list_all2 op_results groups (enumerate_from 1 (split_operations all_images)) \<and>
      length fids = length groups \<and>
      results s = concat groups \<and>
      extract_calls tr' = extract_calls tr @ map img_bytes all_images \<and>
      csv_uploads tr' = csv_uploads tr @
        map (\<lambda>(g, fid). (g, ''batch_results.csv'', fid)) (zip groups fids) @
        [(results s, ''master_results.csv'', mid)] \<and>
      folder_calls tr' = folder_calls tr @ (master_name env tr, master_parents env) #
        map (op_folder_call mid) (enumerate_from 1 (split_operations all_images)) \<and>
      progress_reports tr' = progress_reports tr @
        map (\<lambda>p. (int p + 1, int (length all_images))) [0..<length all_images] \<and>
      master_folder_url s = ''https://drive.google.com/drive/folders/'' @ mid \<and>
      tr' \<noteq> [] \<and> last tr' = DriveCsv (results s) ''master_results.csv'' mid"
proof -
  from process_uploads_char[OF assms] obtain all_images mid tr2 where
    fl: "extract_all_images env uploaded_files [] = Inr all_images" "all_images \<noteq> []" and
    mid: "drive_folder env tr (master_name env tr) (master_parents env) = Inr mid" and
    ro: "run_operations env mid (int (length all_images))
           (enumerate_from 1 (split_operations all_images)) []
           (tr @ [DriveFolder (master_name env tr) (master_parents env)]) = (Inr (results s), tr2)" and
    tr': "tr' = tr2 @ [DriveCsv (results s) ''master_results.csv'' mid]" and
    s: "s = \<lparr>total = int (length all_images),
              operations = int (length (split_operations all_images)),
              success = count_status ''SUCCESS'' (results s),
              failed = count_status ''FAILED'' (results s),
              master_folder_url = ''https://drive.google.com/drive/folders/'' @ mid,
              results = results s\<rparr>"
    by blast
  let ?eops = "enumerate_from 1 (split_operations all_images)"
  let ?tr1 = "tr @ [DriveFolder (master_name env tr) (master_parents env)]"
  from run_operations_char[OF ro] obtain groups fids where
    g: "length fids = length ?eops" "list_all2 op_results groups ?eops"
       "results s = [] @ concat groups"
       "extract_calls tr2 = extract_calls ?tr1 @ map img_bytes (concat (map snd ?eops))"
       "csv_uploads tr2 = csv_uploads ?tr1 @
          map (\<lambda>(g, fid). (g, ''batch_results.csv'', fid)) (zip groups fids)"
       "folder_calls tr2 = folder_calls ?tr1 @ map (op_folder_call mid) ?eops"
       "progress_reports tr2 = progress_reports ?tr1 @
          concat (map (op_progress (int (length all_images))) ?eops)"
    by blast
  from g(2) have "length groups = length ?eops" by (rule list_all2_lengthD)
  with g(1) have lf: "length fids = length groups" by simp
  have url: "master_folder_url s = ''https://drive.google.com/drive/folders/'' @ mid"
    by (subst s) simp
  show ?thesis
  proof (intro exI[of _ all_images] exI[of _ groups] exI[of _ fids] exI[of _ mid] conjI)
    show "extract_all_images env uploaded_files [] = Inr all_images" by (rule fl)
    show "all_images \<noteq> []" by (rule fl)
    show "drive_folder env tr (master_name env tr) (master_parents env) = Inr mid" by (rule mid)
    show "list_all2 op_results groups ?eops" by (rule g)
    show "length fids = length groups" by (rule lf)
    show "results s = concat groups" using g(3) by simp
    show "extract_calls tr' = extract_calls tr @ map img_bytes all_images"
      unfolding tr' using g(4)
      by (simp add: trace_append map_snd_enumerate_from concat_split_operations)
    show "csv_uploads tr' = csv_uploads tr @
        map (\<lambda>(g, fid). (g, ''batch_results.csv'', fid)) (zip groups fids) @
        [(results s, ''master_results.csv'', mid)]"
      unfolding tr' using g(5) by (simp add: trace_append)
    show "folder_calls tr' = folder_calls tr @ (master_name env tr, master_parents env) #
        map (op_folder_call mid) ?eops"
      unfolding tr' using g(6) by (simp add: trace_append)
    show "progress_reports tr' = progress_reports tr @
        map (\<lambda>p. (int p + 1, int (length all_images))) [0..<length all_images]"
      unfolding tr' using g(7) by (simp add: trace_append progress_by_position)
    show "master_folder_url s = ''https://drive.google.com/drive/folders/'' @ mid" by (rule url)
    show "tr' \<noteq> []" unfolding tr' by simp
    show "last tr' = DriveCsv (results s) ''master_results.csv'' mid" unfolding tr' by simp
  qed
qed

lemma many_flatten:
  "extract_all_images demo_env many_files [] = Inr (replicate 120 \<lparr>img_name = ''bed.jpg'', img_bytes = ''bed''\<rparr>)"
  by code_simp

lemma is_result_keys:
  "is_result op_idx img r \<Longrightarrow>
     set (map fst r) \<subseteq> {''operation'', ''image'', ''device'', ''model'', ''serial'',
                         ''manufacturer'', ''doc_url'', ''status'', ''error''}"
  by (auto simp: is_result_def failed_row_def dest!: success_row_fields)

section \<open>Properties of the pipeline\<close>

text \<open>
  Claim C1. When \<^verbatim>\<open>process_uploads\<close> returns its summary, \<open>total\<close> is the length of the
  flattened image list, \<open>success\<close> and \<open>failed\<close> are the numbers of results tagged
  SUCCESS and FAILED, there is one result per image, and \<open>success + failed = total\<close>.
\<close>

theorem summary_counts:
  assumes "process_uploads env uploaded_files tr = (Inr (Some s), tr')"
  shows "\<exists>all_images. extract_all_images env uploaded_files [] = Inr all_images \<and>
           total s = int (length all_images) \<and>
           length (results s) = length all_images \<and>
           success s = int (length (filter (has_status ''SUCCESS'') (results s))) \<and>
           failed s = int (length (filter (has_status ''FAILED'') (results s))) \<and>
           success s + failed s = total s"
proof -
  from process_uploads_char[OF assms] obtain all_images mid tr2 where
    fl: "extract_all_images env uploaded_files [] = Inr all_images" and
    ro: "run_operations env mid (int (length all_images))
           (enumerate_from 1 (split_operations all_images)) []
           (tr @ [DriveFolder (master_name env tr) (master_parents env)]) = (Inr (results s), tr2)" and
    s: "s = \<lparr>total = int (length all_images),
              operations = int (length (split_operations all_images)),
              success = count_status ''SUCCESS'' (results s),
              failed = count_status ''FAILED'' (results s),
              master_folder_url = ''https://drive.google.com/drive/folders/'' @ mid,
              results = results s\<rparr>"
    by blast
  from run_operations_char[OF ro] obtain groups where
    g: "list_all2 op_results groups (enumerate_from 1 (split_operations all_images))"
       "results s = concat groups"
    by auto
  from rows_nth(1)[OF g(1)] g(2) have len: "length (results s) = length all_images" by simp
  have "\<forall>r \<in> set (results s). has_status ''SUCCESS'' r \<noteq> has_status ''FAILED'' r"
  proof
    fix r assume "r \<in> set (results s)"
    then obtain k where k: "k < length (results s)" "r = results s ! k"
      by (auto simp: in_set_conv_nth)
    with len have "k < length all_images" by simp
    from rows_nth(2)[OF g(1) this] k g(2)
    have "is_result (int (k div 50) + 1) (all_images ! k) r" by simp
    then show "has_status ''SUCCESS'' r \<noteq> has_status ''FAILED'' r" by (rule is_result_status)
  qed
  from count_status_split[OF this] len have
    sum: "count_status ''SUCCESS'' (results s) + count_status ''FAILED'' (results s)
            = int (length all_images)"
    by simp
  have t: "total s = int (length all_images)" by (subst s) simp
  have su: "success s = count_status ''SUCCESS'' (results s)" by (subst s) simp
  have fa: "failed s = count_status ''FAILED'' (results s)" by (subst s) simp
  have cs: "\<And>x rs. count_status x rs = int (length (filter (has_status x) rs))"
    by (simp add: count_status_def has_status_def[abs_def])
  from fl t len su fa sum show ?thesis
    by (intro exI[of _ all_images]) (simp add: cs)
qed

theorem summary_counts_witness:
  "\<exists>s tr'. process_uploads demo_env demo_files [] = (Inr (Some s), tr') \<and>
     total s = 5 \<and> success s = 1 \<and> failed s = 4 \<and> success s + failed s = total s \<and>
     length (results s) = 5"
proof -
  from demo_run obtain tr' where
    r: "process_uploads demo_env demo_files [] = (Inr (Some demo_summary), tr')" ..
  from summary_counts[OF r] have
    "success demo_summary + failed demo_summary = total demo_summary"
    "length (results demo_summary) = 5"
    by (auto simp: demo_flatten demo_images_def)
  with r show ?thesis
    by (intro exI[of _ demo_summary] exI[of _ tr']) (simp add: demo_summary_def)
qed

text \<open>
  Claim C2. For a non-empty list of images, the operations of lines 409-412 put together
  in order give the list back; every operation but the last has \<open>BATCH_SIZE\<close> = 50
  images; the last has between 1 and 50, namely the remainder of the length by 50, or 50
  when the length is a multiple of 50; and there are \<open>\<lceil>N / 50\<rceil>\<close> operations.
\<close>

theorem batcher_partition:
  assumes "all_images \<noteq> []"
  shows "concat (split_operations all_images) = all_images \<and>
         (\<forall>k. k + 1 < length (split_operations all_images) \<longrightarrow>
              length (split_operations all_images ! k) = BATCH_SIZE) \<and>
         1 \<le> length (last (split_operations all_images)) \<and>
         length (last (split_operations all_images)) \<le> BATCH_SIZE \<and>
         length (last (split_operations all_images)) =
           (if length all_images mod BATCH_SIZE = 0 then BATCH_SIZE
            else length all_images mod BATCH_SIZE) \<and>
         int (length (split_operations all_images)) = \<lceil>real (length all_images) / real BATCH_SIZE\<rceil>"
proof -
  let ?ops = "split_operations all_images"
  have ops: "?ops = map (\<lambda>i. slice all_images i (i + 50)) (py_range 0 (length all_images) 50)"
    by (simp add: split_operations_def BATCH_SIZE_def)
  from assms have "0 < length all_images" by simp
  from slices_sizes[OF this] have
    ne: "?ops \<noteq> []" and
    full: "\<forall>g \<in> set (butlast ?ops). length g = 50" and
    lst: "length (last ?ops) = (if length all_images mod 50 = 0 then 50 else length all_images mod 50)"
    unfolding ops by (simp_all add: Let_def)
  have a: "concat ?ops = all_images" by (rule concat_split_operations)
  have b: "\<forall>k. k + 1 < length ?ops \<longrightarrow> length (?ops ! k) = BATCH_SIZE"
  proof (intro allI impI)
    fix k assume "k + 1 < length ?ops"
    then have k: "k < length (butlast ?ops)" by simp
    then have "butlast ?ops ! k \<in> set (butlast ?ops)" by (rule nth_mem)
    with k full show "length (?ops ! k) = BATCH_SIZE"
      by (simp add: nth_butlast BATCH_SIZE_def)
  qed
  from lst have c: "1 \<le> length (last ?ops)" and d: "length (last ?ops) \<le> BATCH_SIZE"
    by (simp_all add: BATCH_SIZE_def split: if_splits) 
  have "length ?ops = (length all_images + 49) div 50"
    unfolding ops by (simp add: length_py_range_50)
  then have e: "int (length ?ops) = \<lceil>real (length all_images) / real BATCH_SIZE\<rceil>"
    using ceil50[of "length all_images"] by (simp add: BATCH_SIZE_def)
  from a b c d e lst show ?thesis by (simp add: BATCH_SIZE_def)
qed

theorem batcher_partition_witness:
  "[0..<120::nat] \<noteq> [] \<and>
   concat (split_operations [0..<120::nat]) = [0..<120] \<and>
   map length (split_operations [0..<120::nat]) = [50, 50, 20] \<and>
   length (last (split_operations [0..<120::nat])) = 20 \<and>
   \<lceil>real (length [0..<120::nat]) / real BATCH_SIZE\<rceil> = 3"
proof -
  have ne: "[0..<120::nat] \<noteq> []" by simp
  note t = batcher_partition[OF ne]
  have l: "length (split_operations [0..<120::nat]) = 3"
    by (simp add: split_operations_def length_py_range_50 BATCH_SIZE_def)
  from t have c: "concat (split_operations [0..<120::nat]) = [0..<120]" by blast
  from t have f: "\<forall>k. k + 1 < length (split_operations [0..<120::nat]) \<longrightarrow>
              length (split_operations [0..<120::nat] ! k) = BATCH_SIZE" by blast
  from f l have k0: "length (split_operations [0..<120::nat] ! 0) = 50"
    and k1: "length (split_operations [0..<120::nat] ! 1) = 50"
    by (simp_all add: BATCH_SIZE_def)
  from t have "length (last (split_operations [0..<120::nat])) =
           (if length [0..<120::nat] mod BATCH_SIZE = 0 then BATCH_SIZE
            else length [0..<120::nat] mod BATCH_SIZE)" by blast
  then have lst: "length (last (split_operations [0..<120::nat])) = 20"
    by (simp add: BATCH_SIZE_def)
  from l have "split_operations [0..<120::nat] \<noteq> []" by auto
  with l have "last (split_operations [0..<120::nat]) = split_operations [0..<120::nat] ! 2"
    by (simp add: last_conv_nth)
  with lst have k2: "length (split_operations [0..<120::nat] ! 2) = 20" by simp
  have m: "map length (split_operations [0..<120::nat]) = [50, 50, 20]"
  proof (rule nth_equalityI)
    show "length (map length (split_operations [0..<120::nat])) = length [50, 50, 20::nat]"
      using l by simp
  next
    fix i assume "i < length (map length (split_operations [0..<120::nat]))"
    with l have "i = 0 \<or> i = 1 \<or> i = 2" by auto
    with k0 k1 k2 l show "map length (split_operations [0..<120::nat]) ! i = [50, 50, 20] ! i"
      by auto
  qed
  from t have "int (length (split_operations [0..<120::nat])) =
     \<lceil>real (length [0..<120::nat]) / real BATCH_SIZE\<rceil>" by blast
  with l have e: "\<lceil>real (length [0..<120::nat]) / real BATCH_SIZE\<rceil> = 3" by simp
  from ne c m lst e show ?thesis by blast
qed

text \<open>
  Claim C3. The inner loop (lines 436-475) always runs to its end: whatever the model
  and the document service answer or raise, it hands every image of the operation to the
  extraction, in order, and appends exactly one result per image. When folder creation
  and CSV upload succeed, whatever happens to the items, the run returns its summary,
  every image of every operation has been handed to the extraction, each operation has
  one result per image, and each operation has uploaded its results as
  \<^verbatim>\<open>batch_results.csv\<close> before the master CSV.
\<close>

theorem item_failures_isolated:
  "(\<exists>rs tr'. run_images env op_idx op_folder_id n (enumerate_from 1 operation_images) [] all_results tr
                = ((rs, all_results @ rs), tr') \<and>
              length rs = length operation_images \<and>
              extract_calls tr' = extract_calls tr @ map img_bytes operation_images) \<and>
   (drive_ok env \<longrightarrow> extract_all_images env uploaded_files [] = Inr all_images \<longrightarrow> all_images \<noteq> [] \<longrightarrow>
      (\<exists>s tr' groups fids mid.
          process_uploads env uploaded_files tr = (Inr (Some s), tr') \<and>
          extract_calls tr' = extract_calls tr @ map img_bytes all_images \<and>
          results s = concat groups \<and>
          length (results s) = length all_images \<and>
          list_all2 (\<lambda>g imgs. length g = length imgs) groups (split_operations all_images) \<and>
          length fids = length groups \<and>
          csv_uploads tr' = csv_uploads tr @
            map (\<lambda>(g, fid). (g, ''batch_results.csv'', fid)) (zip groups fids) @
            [(results s, ''master_results.csv'', mid)]))"
proof (intro conjI impI)
  obtain rs alls tr' where
    ri: "run_images env op_idx op_folder_id n (enumerate_from 1 operation_images) [] all_results tr
           = ((rs, alls), tr')"
    by (metis surj_pair)
  from run_images_char[OF ri] have
    a: "alls = all_results @ rs" and
    b: "list_all2 (\<lambda>r img. is_result op_idx img r) rs operation_images" and
    c: "extract_calls tr' = extract_calls tr @ map img_bytes operation_images"
    by auto
  from b have "length rs = length operation_images" by (rule list_all2_lengthD)
  with ri a c show "\<exists>rs tr'. run_images env op_idx op_folder_id n (enumerate_from 1 operation_images) [] all_results tr
                = ((rs, all_results @ rs), tr') \<and>
              length rs = length operation_images \<and>
              extract_calls tr' = extract_calls tr @ map img_bytes operation_images"
    by blast
next
  assume ok: "drive_ok env" and fl: "extract_all_images env uploaded_files [] = Inr all_images"
    and ne: "all_images \<noteq> []"
  from process_uploads_completes[OF ok fl ne] obtain s tr' where
    run: "process_uploads env uploaded_files tr = (Inr (Some s), tr')" by blast
  from run_facts[OF run] fl obtain groups fids mid where
    f: "list_all2 op_results groups (enumerate_from 1 (split_operations all_images))"
       "length fids = length groups"
       "results s = concat groups"
       "extract_calls tr' = extract_calls tr @ map img_bytes all_images"
       "csv_uploads tr' = csv_uploads tr @
          map (\<lambda>(g, fid). (g, ''batch_results.csv'', fid)) (zip groups fids) @
          [(results s, ''master_results.csv'', mid)]"
    by auto
  from rows_nth(1)[OF f(1)] f(3) have len: "length (results s) = length all_images" by simp
  note sz = op_results_sizes[OF f(1)]
  show "\<exists>s tr' groups fids mid.
          process_uploads env uploaded_files tr = (Inr (Some s), tr') \<and>
          extract_calls tr' = extract_calls tr @ map img_bytes all_images \<and>
          results s = concat groups \<and>
          length (results s) = length all_images \<and>
          list_all2 (\<lambda>g imgs. length g = length imgs) groups (split_operations all_images) \<and>
          length fids = length groups \<and>
          csv_uploads tr' = csv_uploads tr @
            map (\<lambda>(g, fid). (g, ''batch_results.csv'', fid)) (zip groups fids) @
            [(results s, ''master_results.csv'', mid)]"
    by (intro exI[of _ s] exI[of _ tr'] exI[of _ groups] exI[of _ fids] exI[of _ mid] conjI)
       (rule run f len sz)+
qed

theorem item_failures_isolated_witness:
  "drive_ok demo_env \<and> extract_all_images demo_env demo_files [] = Inr demo_images \<and>
   demo_images \<noteq> [] \<and>
   (\<exists>tr' groups fids mid.
      process_uploads demo_env demo_files [] = (Inr (Some demo_summary), tr') \<and>
      extract_calls tr' = map img_bytes demo_images \<and>
      results demo_summary = concat groups \<and>
      list_all2 (\<lambda>g imgs. length g = length imgs) groups (split_operations demo_images) \<and>
      length fids = length groups \<and>
      csv_uploads tr' =
        map (\<lambda>(g, fid). (g, ''batch_results.csv'', fid)) (zip groups fids) @
        [(results demo_summary, ''master_results.csv'', mid)]) \<and>
   failed demo_summary = 4 \<and> length (results demo_summary) = 5"
proof -
  have ne: "demo_images \<noteq> []" by (simp add: demo_images_def)
  from item_failures_isolated[THEN conjunct2, rule_format, OF demo_drive_ok demo_flatten ne, of "[]"]
  obtain s tr' groups fids mid where
    f: "process_uploads demo_env demo_files [] = (Inr (Some s), tr')"
       "extract_calls tr' = extract_calls [] @ map img_bytes demo_images"
       "results s = concat groups"
       "list_all2 (\<lambda>g imgs. length g = length imgs) groups (split_operations demo_images)"
       "length fids = length groups"
       "csv_uploads tr' = csv_uploads [] @
          map (\<lambda>(g, fid). (g, ''batch_results.csv'', fid)) (zip groups fids) @
          [(results s, ''master_results.csv'', mid)]"
    by blast
  from f(1) demo_run_fst have s: "s = demo_summary"
    by (metis fst_conv sum.inject(2) option.inject)
  have x: "\<exists>tr' groups fids mid.
      process_uploads demo_env demo_files [] = (Inr (Some demo_summary), tr') \<and>
      extract_calls tr' = map img_bytes demo_images \<and>
      results demo_summary = concat groups \<and>
      list_all2 (\<lambda>g imgs. length g = length imgs) groups (split_operations demo_images) \<and>
      length fids = length groups \<and>
      csv_uploads tr' =
        map (\<lambda>(g, fid). (g, ''batch_results.csv'', fid)) (zip groups fids) @
        [(results demo_summary, ''master_results.csv'', mid)]"
    using f unfolding s
    by (intro exI[of _ tr'] exI[of _ groups] exI[of _ fids] exI[of _ mid]) simp
  have y: "failed demo_summary = 4" "length (results demo_summary) = 5"
    by (simp_all add: demo_summary_def demo_results_def)
  show ?thesis by (intro conjI) (rule demo_drive_ok demo_flatten ne x y)+
qed

text \<open>
  Claim C4, as amended. When a run returns its summary, the image at position \<open>p\<close> of
  the flattened list (counting from 0) belongs to operation \<open>p div 50 + 1\<close> at place
  \<open>p mod 50 + 1\<close>; its result dict carries that operation index under the key
  \<^verbatim>\<open>operation\<close>; the global running index \<^verbatim>\<open>(op_idx - 1) * BATCH_SIZE + img_idx\<close> of
  line 437 equals \<open>p + 1\<close> and is what the overall progress report shows for the
  image, for failed and successful images alike; and a result dict has no key besides
  operation, image, device, model, serial, manufacturer, doc\_url, status and error, so
  the global index is not stored in it. For 120 images the 75th is in operation 2 at
  place 25 and its global index is 75.
\<close>

theorem global_index_reported:
  assumes "process_uploads env uploaded_files tr = (Inr (Some s), tr')"
  shows "\<exists>all_images.
      extract_all_images env uploaded_files [] = Inr all_images \<and>
      length (results s) = length all_images \<and>
      progress_reports tr' = progress_reports tr @
        map (\<lambda>p. ((int (p div BATCH_SIZE) + 1 - 1) * int BATCH_SIZE + (int (p mod BATCH_SIZE) + 1),
                  int (length all_images))) [0..<length all_images] \<and>
      (\<forall>p < length all_images.
         (int (p div BATCH_SIZE) + 1 - 1) * int BATCH_SIZE + (int (p mod BATCH_SIZE) + 1) = int p + 1 \<and>
         map_of (results s ! p) ''operation'' = Some (PInt (int (p div BATCH_SIZE) + 1)) \<and>
         map_of (results s ! p) ''image'' = Some (PStr (img_name (all_images ! p))) \<and>
         set (map fst (results s ! p)) \<subseteq>
           {''operation'', ''image'', ''device'', ''model'', ''serial'', ''manufacturer'',
            ''doc_url'', ''status'', ''error''})"
proof -
  from run_facts[OF assms] obtain all_images groups where
    f: "extract_all_images env uploaded_files [] = Inr all_images"
       "list_all2 op_results groups (enumerate_from 1 (split_operations all_images))"
       "results s = concat groups"
       "progress_reports tr' = progress_reports tr @
          map (\<lambda>p. (int p + 1, int (length all_images))) [0..<length all_images]"
    by blast
  have ar: "(int (p div BATCH_SIZE) + 1 - 1) * int BATCH_SIZE + (int (p mod BATCH_SIZE) + 1) = int p + 1"
    for p
  proof -
    have "int (p div 50) * 50 + int (p mod 50) = int p"
      by (metis div_mult_mod_eq of_nat_add of_nat_mult of_nat_numeral)
    then show ?thesis by (simp add: BATCH_SIZE_def)
  qed
  from rows_nth(1)[OF f(2)] f(3) have len: "length (results s) = length all_images" by simp
  have pr: "progress_reports tr' = progress_reports tr @
        map (\<lambda>p. ((int (p div BATCH_SIZE) + 1 - 1) * int BATCH_SIZE + (int (p mod BATCH_SIZE) + 1),
                  int (length all_images))) [0..<length all_images]"
    unfolding ar by (rule f(4))
  have rows: "\<forall>p < length all_images.
         (int (p div BATCH_SIZE) + 1 - 1) * int BATCH_SIZE + (int (p mod BATCH_SIZE) + 1) = int p + 1 \<and>
         map_of (results s ! p) ''operation'' = Some (PInt (int (p div BATCH_SIZE) + 1)) \<and>
         map_of (results s ! p) ''image'' = Some (PStr (img_name (all_images ! p))) \<and>
         set (map fst (results s ! p)) \<subseteq>
           {''operation'', ''image'', ''device'', ''model'', ''serial'', ''manufacturer'',
            ''doc_url'', ''status'', ''error''}"
  proof (intro allI impI)
    fix p assume "p < length all_images"
    from rows_nth(2)[OF f(2) this] f(3)
    have r: "is_result (int (p div BATCH_SIZE) + 1) (all_images ! p) (results s ! p)"
      by (simp add: BATCH_SIZE_def)
    from ar is_result_operation[OF r] is_result_image[OF r] is_result_keys[OF r]
    show "(int (p div BATCH_SIZE) + 1 - 1) * int BATCH_SIZE + (int (p mod BATCH_SIZE) + 1) = int p + 1 \<and>
         map_of (results s ! p) ''operation'' = Some (PInt (int (p div BATCH_SIZE) + 1)) \<and>
         map_of (results s ! p) ''image'' = Some (PStr (img_name (all_images ! p))) \<and>
         set (map fst (results s ! p)) \<subseteq>
           {''operation'', ''image'', ''device'', ''model'', ''serial'', ''manufacturer'',
            ''doc_url'', ''status'', ''error''}"
      by (intro conjI)
  qed
  show ?thesis
    by (intro exI[of _ all_images] conjI) (rule f(1) len pr rows)+
qed

theorem global_index_reported_witness:
  "\<exists>s tr'. process_uploads demo_env many_files [] = (Inr (Some s), tr') \<and>
     length (results s) = 120 \<and>
     progress_reports tr' ! 74 = (75, 120) \<and>
     (int (74 div BATCH_SIZE) + 1 - 1) * int BATCH_SIZE + (int (74 mod BATCH_SIZE) + 1) = 75 \<and>
     int (74 div BATCH_SIZE) + 1 = 2 \<and> int (74 mod BATCH_SIZE) + 1 = 25 \<and>
     map_of (results s ! 74) ''operation'' = Some (PInt 2) \<and>
     map_of (results s ! 74) ''image'' = Some (PStr ''bed.jpg'')"
proof -
  let ?imgs = "replicate 120 \<lparr>img_name = ''bed.jpg'', img_bytes = ''bed''\<rparr>"
  have ne: "?imgs \<noteq> []" by simp
  from process_uploads_completes[OF demo_drive_ok many_flatten ne, of "[]"] obtain s tr' where
    run: "process_uploads demo_env many_files [] = (Inr (Some s), tr')" by blast
  from global_index_reported[OF run] many_flatten have
    len: "length (results s) = length ?imgs" and
    pr: "progress_reports tr' = progress_reports [] @
        map (\<lambda>p. ((int (p div BATCH_SIZE) + 1 - 1) * int BATCH_SIZE + (int (p mod BATCH_SIZE) + 1),
                  int (length ?imgs))) [0..<length ?imgs]" and
    rows: "\<forall>p < length ?imgs.
         (int (p div BATCH_SIZE) + 1 - 1) * int BATCH_SIZE + (int (p mod BATCH_SIZE) + 1) = int p + 1 \<and>
         map_of (results s ! p) ''operation'' = Some (PInt (int (p div BATCH_SIZE) + 1)) \<and>
         map_of (results s ! p) ''image'' = Some (PStr (img_name (?imgs ! p))) \<and>
         set (map fst (results s ! p)) \<subseteq>
           {''operation'', ''image'', ''device'', ''model'', ''serial'', ''manufacturer'',
            ''doc_url'', ''status'', ''error''}"
    by auto
  from len have a: "length (results s) = 120" by simp
  from pr have b: "progress_reports tr' ! 74 = (75, 120)" by (simp add: BATCH_SIZE_def)
  have c: "(int (74 div BATCH_SIZE) + 1 - 1) * int BATCH_SIZE + (int (74 mod BATCH_SIZE) + 1) = 75"
    "int (74 div BATCH_SIZE) + 1 = 2" "int (74 mod BATCH_SIZE) + 1 = 25"
    by (simp_all add: BATCH_SIZE_def)
  have "(74::nat) < length ?imgs" by simp
  with rows have
    "map_of (results s ! 74) ''operation'' = Some (PInt (int (74 div BATCH_SIZE) + 1)) \<and>
     map_of (results s ! 74) ''image'' = Some (PStr (img_name (?imgs ! 74)))"
    by blast
  then have d: "map_of (results s ! 74) ''operation'' = Some (PInt 2)"
    "map_of (results s ! 74) ''image'' = Some (PStr ''bed.jpg'')"
    by (simp_all add: BATCH_SIZE_def)
  show ?thesis
    by (intro exI[of _ s] exI[of _ tr'] conjI) (rule run a b c d)+
qed

text \<open>
  The claim C4 as it was stated does not hold: in the sample run the fourth image is
  processed successfully in operation 1 at place 4, its global index 4 is reported as
  progress, and its result dict has the eight keys of lines 448-457, operation 1 among
  them, and no value 4.
\<close>

theorem global_index_not_recorded:
  "fst (process_uploads demo_env demo_files []) = Inr (Some demo_summary) \<and>
   has_status ''SUCCESS'' (results demo_summary ! 3) \<and>
   map_of (results demo_summary ! 3) ''operation'' = Some (PInt 1) \<and>
   (1 - 1) * int BATCH_SIZE + 4 = (4::int) \<and>
   progress_reports (snd (process_uploads demo_env demo_files [])) ! 3 = (4, 5) \<and>
   map fst (results demo_summary ! 3) =
     [''operation'', ''image'', ''device'', ''model'', ''serial'', ''manufacturer'', ''doc_url'',
      ''status''] \<and>
   list_all (\<lambda>(k, v). v \<noteq> PInt 4) (results demo_summary ! 3)"
  by code_simp

text \<open>
  Claim C5. When the flattening loop (lines 379-393) returns, its output is the
  concatenation, in upload order, of what each entry contributes: an entry whose name
  ends in \<^verbatim>\<open>.zip\<close> contributes its members whose lower-cased name ends in \<^verbatim>\<open>.jpg\<close>,
  \<^verbatim>\<open>.jpeg\<close> or \<^verbatim>\<open>.png\<close>, in the listing order of the archive, so a member with another
  extension is not among them and is not counted; any other entry contributes itself,
  name and bytes unchanged.
\<close>

theorem flattener_filters:
  assumes "extract_all_images env uploaded_files [] = Inr all_images"
  shows "\<exists>parts. list_all2 (entry_images env) uploaded_files parts \<and> all_images = concat parts \<and>
           (\<forall>i z. i < length uploaded_files \<longrightarrow> endswith (name (uploaded_files ! i)) ''.zip'' \<longrightarrow>
                  ZipFile env (data (uploaded_files ! i)) = Inr z \<longrightarrow>
                  map img_name (parts ! i) = filter has_image_ext (namelist z) \<and>
                  (\<forall>n \<in> set (namelist z). \<not> has_image_ext n \<longrightarrow> n \<notin> img_name ` set (parts ! i))) \<and>
           (\<forall>i. i < length uploaded_files \<longrightarrow> \<not> endswith (name (uploaded_files ! i)) ''.zip'' \<longrightarrow>
                  parts ! i = [\<lparr>img_name = name (uploaded_files ! i),
                                 img_bytes = data (uploaded_files ! i)\<rparr>])"
proof -
  from extract_all_images_parts[OF assms] obtain parts where
    p: "list_all2 (entry_images env) uploaded_files parts" and c: "all_images = concat parts"
    by auto
  have a: "\<forall>i z. i < length uploaded_files \<longrightarrow> endswith (name (uploaded_files ! i)) ''.zip'' \<longrightarrow>
                  ZipFile env (data (uploaded_files ! i)) = Inr z \<longrightarrow>
                  map img_name (parts ! i) = filter has_image_ext (namelist z) \<and>
                  (\<forall>n \<in> set (namelist z). \<not> has_image_ext n \<longrightarrow> n \<notin> img_name ` set (parts ! i))"
  proof (intro allI impI)
    fix i z
    assume i: "i < length uploaded_files" and e: "endswith (name (uploaded_files ! i)) ''.zip''"
      and z: "ZipFile env (data (uploaded_files ! i)) = Inr z"
    from list_all2_nthD[OF p i] have "entry_images env (uploaded_files ! i) (parts ! i)" .
    with e z have m: "map img_name (parts ! i) = filter has_image_ext (namelist z)"
      by (simp add: entry_images_def)
    have "\<forall>n \<in> set (namelist z). \<not> has_image_ext n \<longrightarrow> n \<notin> img_name ` set (parts ! i)"
    proof (intro ballI impI)
      fix n assume "\<not> has_image_ext n"
      then have "n \<notin> set (filter has_image_ext (namelist z))" by simp
      with m show "n \<notin> img_name ` set (parts ! i)" by (metis set_map)
    qed
    with m show "map img_name (parts ! i) = filter has_image_ext (namelist z) \<and>
       (\<forall>n \<in> set (namelist z). \<not> has_image_ext n \<longrightarrow> n \<notin> img_name ` set (parts ! i))" ..
  qed
  have b: "\<forall>i. i < length uploaded_files \<longrightarrow> \<not> endswith (name (uploaded_files ! i)) ''.zip'' \<longrightarrow>
                  parts ! i = [\<lparr>img_name = name (uploaded_files ! i),
                                 img_bytes = data (uploaded_files ! i)\<rparr>]"
  proof (intro allI impI)
    fix i
    assume i: "i < length uploaded_files" and e: "\<not> endswith (name (uploaded_files ! i)) ''.zip''"
    from list_all2_nthD[OF p i] have "entry_images env (uploaded_files ! i) (parts ! i)" .
    with e show "parts ! i = [\<lparr>img_name = name (uploaded_files ! i),
                                 img_bytes = data (uploaded_files ! i)\<rparr>]"
      by (simp add: entry_images_def)
  qed
  from p c a b show ?thesis by blast
qed

theorem flattener_filters_witness:
  "extract_all_images demo_env demo_files [] = Inr demo_images \<and>
   (\<exists>parts. list_all2 (entry_images demo_env) demo_files parts \<and> demo_images = concat parts \<and>
      map img_name (parts ! 0) = [''a.jpg'', ''B.PNG'', ''lift.jpeg''] \<and>
      ''notes.txt'' \<notin> img_name ` set (parts ! 0) \<and>
      parts ! 1 = [\<lparr>img_name = ''bed.jpg'', img_bytes = ''bed''\<rparr>])"
proof -
  from flattener_filters[OF demo_flatten] obtain parts where
    p: "list_all2 (entry_images demo_env) demo_files parts" "demo_images = concat parts" and
    a: "\<forall>i z. i < length demo_files \<longrightarrow> endswith (name (demo_files ! i)) ''.zip'' \<longrightarrow>
                  ZipFile demo_env (data (demo_files ! i)) = Inr z \<longrightarrow>
                  map img_name (parts ! i) = filter has_image_ext (namelist z) \<and>
                  (\<forall>n \<in> set (namelist z). \<not> has_image_ext n \<longrightarrow> n \<notin> img_name ` set (parts ! i))" and
    b: "\<forall>i. i < length demo_files \<longrightarrow> \<not> endswith (name (demo_files ! i)) ''.zip'' \<longrightarrow>
                  parts ! i = [\<lparr>img_name = name (demo_files ! i),
                                 img_bytes = data (demo_files ! i)\<rparr>]"
    by blast
  have h0: "0 < length demo_files" "endswith (name (demo_files ! 0)) ''.zip''"
    "ZipFile demo_env (data (demo_files ! 0)) = Inr demo_archive"
    by (simp_all add: demo_files_def demo_env_def endswith_def)
  have f: "filter has_image_ext (namelist demo_archive) = [''a.jpg'', ''B.PNG'', ''lift.jpeg'']"
    by code_simp
  have n: "''notes.txt'' \<in> set (namelist demo_archive)" "\<not> has_image_ext ''notes.txt''"
    by code_simp+
  from a h0 have "map img_name (parts ! 0) = filter has_image_ext (namelist demo_archive) \<and>
                  (\<forall>n \<in> set (namelist demo_archive). \<not> has_image_ext n \<longrightarrow> n \<notin> img_name ` set (parts ! 0))"
    by blast
  with f n have c0: "map img_name (parts ! 0) = [''a.jpg'', ''B.PNG'', ''lift.jpeg'']"
    "''notes.txt'' \<notin> img_name ` set (parts ! 0)"
    by auto
  have h1: "1 < length demo_files" "\<not> endswith (name (demo_files ! 1)) ''.zip''"
    by (simp_all add: demo_files_def endswith_def)
  with b have "parts ! 1 = [\<lparr>img_name = name (demo_files ! 1), img_bytes = data (demo_files ! 1)\<rparr>]"
    by blast
  then have c1: "parts ! 1 = [\<lparr>img_name = ''bed.jpg'', img_bytes = ''bed''\<rparr>]"
    by (simp add: demo_files_def)
  show ?thesis by (intro conjI exI[of _ parts]) (rule demo_flatten p c0 c1)+
qed

text \<open>
  Claim C6. When the flattened list is empty, \<^verbatim>\<open>process_uploads\<close> reports the message
  of line 396 and returns \<^verbatim>\<open>None\<close>; the trace gains that report and nothing else: no
  folder is created, no CSV is uploaded, no document is created and no image is
  extracted. An archive none of whose members has an image extension flattens to the
  empty list.
\<close>

theorem no_images_aborts:
  "(extract_all_images env uploaded_files [] = Inr [] \<longrightarrow>
      process_uploads env uploaded_files tr = (Inr None, tr @ [StError no_images_message]) \<and>
      folder_calls (snd (process_uploads env uploaded_files tr)) = folder_calls tr \<and>
      csv_uploads (snd (process_uploads env uploaded_files tr)) = csv_uploads tr \<and>
      doc_calls (snd (process_uploads env uploaded_files tr)) = doc_calls tr \<and>
      extract_calls (snd (process_uploads env uploaded_files tr)) = extract_calls tr) \<and>
   (endswith (name file) ''.zip'' \<longrightarrow> ZipFile env (data file) = Inr z \<longrightarrow>
      (\<forall>n \<in> set (namelist z). \<not> has_image_ext n) \<longrightarrow>
      extract_all_images env [file] [] = Inr [])"
proof (intro conjI impI)
  assume e: "extract_all_images env uploaded_files [] = Inr []"
  then show r: "process_uploads env uploaded_files tr = (Inr None, tr @ [StError no_images_message])"
    by (simp add: process_uploads_def)
  show "folder_calls (snd (process_uploads env uploaded_files tr)) = folder_calls tr"
    unfolding r by (simp add: trace_append)
  show "csv_uploads (snd (process_uploads env uploaded_files tr)) = csv_uploads tr"
    unfolding r by (simp add: trace_append)
  show "doc_calls (snd (process_uploads env uploaded_files tr)) = doc_calls tr"
    unfolding r by (simp add: trace_append)
  show "extract_calls (snd (process_uploads env uploaded_files tr)) = extract_calls tr"
    unfolding r by (simp add: trace_append)
next
  assume zip: "endswith (name file) ''.zip''" and z: "ZipFile env (data file) = Inr z"
    and none: "\<forall>n \<in> set (namelist z). \<not> has_image_ext n"
  have "\<And>ns acc. \<forall>n \<in> set ns. \<not> has_image_ext n \<Longrightarrow> zip_members z ns acc = Inr acc"
  proof -
    fix ns acc show "\<forall>n \<in> set ns. \<not> has_image_ext n \<Longrightarrow> zip_members z ns acc = Inr acc"
      by (induction ns) simp_all
  qed
  from this[OF none] zip z show "extract_all_images env [file] [] = Inr []" by simp
qed

theorem no_images_aborts_witness:
  "endswith ''docs.zip'' ''.zip'' \<and> ZipFile demo_env ''PKtxt'' = Inr txt_archive \<and>
   list_all (\<lambda>n. \<not> has_image_ext n) (namelist txt_archive) \<and>
   extract_all_images demo_env [\<lparr>name = ''docs.zip'', data = ''PKtxt''\<rparr>] [] = Inr [] \<and>
   process_uploads demo_env [\<lparr>name = ''docs.zip'', data = ''PKtxt''\<rparr>] []
     = (Inr None, [StError no_images_message])"
proof -
  let ?f = "\<lparr>name = ''docs.zip'', data = ''PKtxt''\<rparr>"
  have a: "endswith (name ?f) ''.zip''" by (simp add: endswith_def)
  have b: "ZipFile demo_env (data ?f) = Inr txt_archive" by (simp add: demo_env_def)
  have c: "list_all (\<lambda>n. \<not> has_image_ext n) (namelist txt_archive)" by code_simp
  then have c': "\<forall>n \<in> set (namelist txt_archive). \<not> has_image_ext n" by (simp add: list_all_iff)
  note t = no_images_aborts[of demo_env "[?f]" "[]" ?f txt_archive]
  from t a b c' have e: "extract_all_images demo_env [?f] [] = Inr []" by blast
  with t have "process_uploads demo_env [?f] [] = (Inr None, [] @ [StError no_images_message])"
    by blast
  with a b c e show ?thesis by simp
qed

text \<open>
  Claim C7. When the extraction raises, and when the extraction succeeds and the
  creation of the document raises, the try statement (lines 441-465) yields the same
  dict for the same exception: operation, image, the \<^verbatim>\<open>str\<close> of the exception and the
  tag FAILED, with no field and no document URL, and with nothing that tells which step
  raised. For one uploaded image whose extraction raises, with folder creation and CSV
  upload succeeding, the summary has total 1, failed 1 and success 0, and the CSV
  uploaded as \<^verbatim>\<open>master_results.csv\<close> is made of that one dict.
\<close>

theorem failures_recorded_alike:
  "(extract_equipment_data env (img_bytes img) tr = (Inl e, tr1) \<longrightarrow>
      fst (try_image env op_idx op_folder_id img tr) = failed_row op_idx img e) \<and>
   (extract_equipment_data env (img_bytes img) tr = (Inr d, tr1) \<longrightarrow>
      create_equipment_doc env d op_folder_id tr1 = (Inl e, tr2) \<longrightarrow>
      fst (try_image env op_idx op_folder_id img tr) = failed_row op_idx img e) \<and>
   map fst (failed_row op_idx img e) = [''operation'', ''image'', ''error'', ''status''] \<and>
   map_of (failed_row op_idx img e) ''error'' = Some (PStr (str_exn e)) \<and>
   has_status ''FAILED'' (failed_row op_idx img e) \<and>
   (drive_ok env \<longrightarrow> \<not> endswith (name file) ''.zip'' \<longrightarrow>
    (\<forall>tr0. gemini env tr0 (data file) = Inl e) \<longrightarrow>
      (\<exists>s tr' fid mid.
          process_uploads env [file] tr = (Inr (Some s), tr') \<and>
          total s = 1 \<and> failed s = 1 \<and> success s = 0 \<and>
          results s = [failed_row 1 \<lparr>img_name = name file, img_bytes = data file\<rparr> e] \<and>
          csv_uploads tr' = csv_uploads tr @
            [(results s, ''batch_results.csv'', fid), (results s, ''master_results.csv'', mid)]))"
proof (intro conjI impI)
  assume "extract_equipment_data env (img_bytes img) tr = (Inl e, tr1)"
  then show "fst (try_image env op_idx op_folder_id img tr) = failed_row op_idx img e"
    by (simp add: try_image_def)
next
  assume "extract_equipment_data env (img_bytes img) tr = (Inr d, tr1)"
    and "create_equipment_doc env d op_folder_id tr1 = (Inl e, tr2)"
  then show "fst (try_image env op_idx op_folder_id img tr) = failed_row op_idx img e"
    by (simp add: try_image_def)
next
  show "map fst (failed_row op_idx img e) = [''operation'', ''image'', ''error'', ''status'']"
    by (simp add: failed_row_def)
  show "map_of (failed_row op_idx img e) ''error'' = Some (PStr (str_exn e))"
    by (simp add: failed_row_def)
  show "has_status ''FAILED'' (failed_row op_idx img e)"
    by (simp add: failed_row_def has_status_def)
next
  assume ok: "drive_ok env" and nz: "\<not> endswith (name file) ''.zip''"
    and g: "\<forall>tr0. gemini env tr0 (data file) = Inl e"
  define img where "img = \<lparr>img_name = name file, img_bytes = data file\<rparr>"
  define row where "row = failed_row 1 img e"
  from nz have fl: "extract_all_images env [file] [] = Inr [img]" by (simp add: img_def)
  from ok obtain mid where
    mid: "drive_folder env tr (master_name env tr) (master_parents env) = Inr mid"
    unfolding drive_ok_def by blast
  define tr1 where "tr1 = tr @ [DriveFolder (master_name env tr) (master_parents env)]"
  define par where "par = (if mid \<noteq> [] then Some mid else None)"
  from ok obtain fid where
    fid: "drive_folder env tr1 (''Operation_'' @ format_03d 1) par = Inr fid"
    unfolding drive_ok_def by blast
  define tr2 where "tr2 = tr1 @ [DriveFolder (''Operation_'' @ format_03d 1) par]"
  from g have "gemini env tr2 (img_bytes img) = Inl e" by (simp add: img_def)
  from try_image_extract_fails[OF this]
  have ti: "try_image env 1 fid img tr2 = (row, tr2 @ [Extract (data file)])"
    by (simp add: img_def row_def)
  define tr3 where "tr3 = tr2 @ [Extract (data file)] @ [OverallProgress 1 1]"
  have ri: "run_images env 1 fid 1 (enumerate_from 1 [img]) [] [] tr2 = (([row], [row]), tr3)"
    by (simp add: ti Let_def tr3_def)
  from ok obtain c where c: "drive_csv env tr3 [row] ''batch_results.csv'' fid = Inr c"
    unfolding drive_ok_def by blast
  define tr4 where "tr4 = tr3 @ [DriveCsv [row] ''batch_results.csv'' fid]"
  have cf: "create_drive_folder env (''Operation_'' @ format_03d 1) mid tr1 = (Inr fid, tr2)"
    using fid by (simp add: create_drive_folder_def Let_def par_def tr2_def)
  have uc: "upload_csv_to_drive env [row] ''batch_results.csv'' fid tr3 = (Inr c, tr4)"
    using c by (simp add: upload_csv_to_drive_def tr4_def)
  have ro: "run_operations env mid 1 (enumerate_from 1 [[img]]) [] tr1 = (Inr [row], tr4)"
    using cf ri uc by simp
  from ok obtain c2 where c2: "drive_csv env tr4 [row] ''master_results.csv'' mid = Inr c2"
    unfolding drive_ok_def by blast
  define s where "s = \<lparr>total = 1, operations = 1, success = 0, failed = 1,
             master_folder_url = ''https://drive.google.com/drive/folders/'' @ mid,
             results = [row]\<rparr>"
  define tr5 where "tr5 = tr4 @ [DriveCsv [row] ''master_results.csv'' mid]"
  have cnt: "count_status ''SUCCESS'' [row] = 0" "count_status ''FAILED'' [row] = 1"
    by (simp_all add: count_status_def failed_row_def row_def)
  have cm: "create_drive_folder env (''DME_Upload_'' @ now_strftime env tr) (BASE_FOLDER_ID env) tr
              = (Inr mid, tr1)"
    using mid by (simp add: create_drive_folder_def Let_def master_name_def master_parents_def tr1_def)
  have um: "upload_csv_to_drive env [row] ''master_results.csv'' mid tr4 = (Inr c2, tr5)"
    using c2 by (simp add: upload_csv_to_drive_def tr5_def)
  have run: "process_uploads env [file] tr = (Inr (Some s), tr5)"
    unfolding process_uploads_def fl
    using cm ro um cnt by (simp add: split_single s_def)
  have csv: "csv_uploads tr5 = csv_uploads tr @
       [([row], ''batch_results.csv'', fid), ([row], ''master_results.csv'', mid)]"
    by (simp add: trace_append tr5_def tr4_def tr3_def tr2_def tr1_def)
  have "process_uploads env [file] tr = (Inr (Some s), tr5) \<and>
          total s = 1 \<and> failed s = 1 \<and> success s = 0 \<and>
          results s = [failed_row 1 \<lparr>img_name = name file, img_bytes = data file\<rparr> e] \<and>
          csv_uploads tr5 = csv_uploads tr @
            [(results s, ''batch_results.csv'', fid), (results s, ''master_results.csv'', mid)]"
    using run csv by (simp add: s_def row_def img_def)
  then show "\<exists>s tr' fid mid.
          process_uploads env [file] tr = (Inr (Some s), tr') \<and>
          total s = 1 \<and> failed s = 1 \<and> success s = 0 \<and>
          results s = [failed_row 1 \<lparr>img_name = name file, img_bytes = data file\<rparr> e] \<and>
          csv_uploads tr' = csv_uploads tr @
            [(results s, ''batch_results.csv'', fid), (results s, ''master_results.csv'', mid)]"
    by blast
qed

theorem failures_recorded_alike_witness:
  "extract_equipment_data demo_env ''a.jpg'' [] = (Inl (Raised ''unreadable label''), [Extract ''a.jpg'']) \<and>
   fst (try_image demo_env 1 ''f'' \<lparr>img_name = ''a.jpg'', img_bytes = ''a.jpg''\<rparr> [])
     = failed_row 1 \<lparr>img_name = ''a.jpg'', img_bytes = ''a.jpg''\<rparr> (Raised ''unreadable label'') \<and>
   extract_equipment_data demo_env ''lift.jpeg'' [] = (Inr (demo_fields ''Lift''), [Extract ''lift.jpeg'']) \<and>
   create_equipment_doc demo_env (demo_fields ''Lift'') ''f'' [Extract ''lift.jpeg'']
     = (Inl (Raised ''quota exceeded''), [Extract ''lift.jpeg'', CreateDoc (demo_fields ''Lift'') ''f'']) \<and>
   fst (try_image demo_env 1 ''f'' \<lparr>img_name = ''lift.jpeg'', img_bytes = ''lift.jpeg''\<rparr> [])
     = failed_row 1 \<lparr>img_name = ''lift.jpeg'', img_bytes = ''lift.jpeg''\<rparr> (Raised ''quota exceeded'') \<and>
   (\<exists>s tr' fid mid.
      process_uploads demo_env [\<lparr>name = ''a.jpg'', data = ''a.jpg''\<rparr>] [] = (Inr (Some s), tr') \<and>
      total s = 1 \<and> failed s = 1 \<and> success s = 0 \<and>
      results s = [failed_row 1 \<lparr>img_name = ''a.jpg'', img_bytes = ''a.jpg''\<rparr> (Raised ''unreadable label'')] \<and>
      csv_uploads tr' = [(results s, ''batch_results.csv'', fid), (results s, ''master_results.csv'', mid)])"
proof -
  let ?a = "\<lparr>img_name = ''a.jpg'', img_bytes = ''a.jpg''\<rparr>"
  let ?l = "\<lparr>img_name = ''lift.jpeg'', img_bytes = ''lift.jpeg''\<rparr>"
  let ?f = "\<lparr>name = ''a.jpg'', data = ''a.jpg''\<rparr>"
  have e1: "extract_equipment_data demo_env (img_bytes ?a) [] = (Inl (Raised ''unreadable label''), [Extract ''a.jpg''])"
    by (simp add: extract_equipment_data_def demo_env_def)
  have r1: "fst (try_image demo_env 1 ''f'' ?a []) = failed_row 1 ?a (Raised ''unreadable label'')"
    by (rule failures_recorded_alike[THEN conjunct1, rule_format, OF e1])
  have e2: "extract_equipment_data demo_env (img_bytes ?l) [] = (Inr (demo_fields ''Lift''), [Extract ''lift.jpeg''])"
    by (simp add: extract_equipment_data_def demo_env_def)
  have d2: "create_equipment_doc demo_env (demo_fields ''Lift'') ''f'' [Extract ''lift.jpeg'']
     = (Inl (Raised ''quota exceeded''), [Extract ''lift.jpeg'', CreateDoc (demo_fields ''Lift'') ''f''])"
    by (simp add: create_equipment_doc_def demo_env_def demo_fields_def Let_def)
  have r2: "fst (try_image demo_env 1 ''f'' ?l []) = failed_row 1 ?l (Raised ''quota exceeded'')"
    by (rule failures_recorded_alike[THEN conjunct2, THEN conjunct1, rule_format, OF e2 d2])
  have nz: "\<not> endswith (name ?f) ''.zip''" by (simp add: endswith_def)
  have g: "gemini demo_env tr0 (data ?f) = Inl (Raised ''unreadable label'')" for tr0
    by (simp add: demo_env_def)
  from failures_recorded_alike[THEN conjunct2, THEN conjunct2, THEN conjunct2, THEN conjunct2,
         THEN conjunct2, rule_format, OF demo_drive_ok nz g, of "[]"]
  have sc: "\<exists>s tr' fid mid.
      process_uploads demo_env [?f] [] = (Inr (Some s), tr') \<and>
      total s = 1 \<and> failed s = 1 \<and> success s = 0 \<and>
      results s = [failed_row 1 ?a (Raised ''unreadable label'')] \<and>
      csv_uploads tr' = [(results s, ''batch_results.csv'', fid), (results s, ''master_results.csv'', mid)]"
    by simp
  from e1 r1 e2 d2 r2 sc show ?thesis by simp
qed

text \<open>
  Claim C8. When a run returns its summary, its result list is the concatenation of the
  result lists of the operations, in the order of the operations, each list holding the
  results of the operation's images in the order they were processed; each of these
  lists was uploaded as \<^verbatim>\<open>batch_results.csv\<close>, and the last call of the run uploads
  the concatenation as \<^verbatim>\<open>master_results.csv\<close> into the master folder, the folder the
  summary links to.
\<close>

theorem master_results_concat:
  assumes "process_uploads env uploaded_files tr = (Inr (Some s), tr')"
  shows "\<exists>all_images groups fids mid.
      extract_all_images env uploaded_files [] = Inr all_images \<and>
      list_all2 op_results groups (enumerate_from 1 (split_operations all_images)) \<and>
      length fids = length groups \<and>
      results s = concat groups \<and>
      drive_folder env tr (master_name env tr) (master_parents env) = Inr mid \<and>
      csv_uploads tr' = csv_uploads tr @
        map (\<lambda>(g, fid). (g, ''batch_results.csv'', fid)) (zip groups fids) @
        [(concat groups, ''master_results.csv'', mid)] \<and>
      last tr' = DriveCsv (concat groups) ''master_results.csv'' mid \<and>
      master_folder_url s = ''https://drive.google.com/drive/folders/'' @ mid"
proof -
  from run_facts[OF assms] obtain all_images groups fids mid where
    f: "extract_all_images env uploaded_files [] = Inr all_images"
       "list_all2 op_results groups (enumerate_from 1 (split_operations all_images))"
       "length fids = length groups"
       "results s = concat groups"
       "drive_folder env tr (master_name env tr) (master_parents env) = Inr mid"
       "csv_uploads tr' = csv_uploads tr @
          map (\<lambda>(g, fid). (g, ''batch_results.csv'', fid)) (zip groups fids) @
          [(results s, ''master_results.csv'', mid)]"
       "last tr' = DriveCsv (results s) ''master_results.csv'' mid"
       "master_folder_url s = ''https://drive.google.com/drive/folders/'' @ mid"
    by blast
  from f(6) have c: "csv_uploads tr' = csv_uploads tr @
          map (\<lambda>(g, fid). (g, ''batch_results.csv'', fid)) (zip groups fids) @
          [(concat groups, ''master_results.csv'', mid)]"
    unfolding f(4) .
  from f(7) have l: "last tr' = DriveCsv (concat groups) ''master_results.csv'' mid"
    unfolding f(4) .
  show ?thesis
    by (intro exI[of _ all_images] exI[of _ groups] exI[of _ fids] exI[of _ mid] conjI)
       (rule f(1,2,3,4,5,8) c l)+
qed

theorem master_results_concat_witness:
  "\<exists>tr' groups fids mid.
      process_uploads demo_env demo_files [] = (Inr (Some demo_summary), tr') \<and>
      list_all2 op_results groups (enumerate_from 1 (split_operations demo_images)) \<and>
      length fids = length groups \<and>
      demo_results = concat groups \<and>
      csv_uploads tr' =
        map (\<lambda>(g, fid). (g, ''batch_results.csv'', fid)) (zip groups fids) @
        [(concat groups, ''master_results.csv'', mid)] \<and>
      last tr' = DriveCsv (concat groups) ''master_results.csv'' mid"
proof -
  from demo_run obtain tr' where
    run: "process_uploads demo_env demo_files [] = (Inr (Some demo_summary), tr')" ..
  from master_results_concat[OF run] obtain all_images groups fids mid where
    f: "extract_all_images demo_env demo_files [] = Inr all_images"
       "list_all2 op_results groups (enumerate_from 1 (split_operations all_images))"
       "length fids = length groups"
       "results demo_summary = concat groups"
       "csv_uploads tr' = csv_uploads [] @
          map (\<lambda>(g, fid). (g, ''batch_results.csv'', fid)) (zip groups fids) @
          [(concat groups, ''master_results.csv'', mid)]"
       "last tr' = DriveCsv (concat groups) ''master_results.csv'' mid"
    by blast
  from f(1) demo_flatten have a: "all_images = demo_images" by simp
  from f(4) have r: "demo_results = concat groups" by (simp add: demo_summary_def)
  from f(5) have c: "csv_uploads tr' =
        map (\<lambda>(g, fid). (g, ''batch_results.csv'', fid)) (zip groups fids) @
        [(concat groups, ''master_results.csv'', mid)]" by simp
  from f(2) have g: "list_all2 op_results groups (enumerate_from 1 (split_operations demo_images))"
    unfolding a .
  show ?thesis
    by (intro exI[of _ tr'] exI[of _ groups] exI[of _ fids] exI[of _ mid] conjI)
       (rule run f(3,6) r c g)+
qed

text \<open>
  Claim C9. In the results of a run that returns its summary, every dict tagged SUCCESS
  has the keys device, model, serial and manufacturer (the value is whatever the model
  answered, the sentinel \<^verbatim>\<open>n/a\<close> included). When the extraction returns an object on
  which the subscript of one of these four keys raises, the try statement yields a dict
  tagged FAILED, never one tagged SUCCESS.
\<close>

theorem success_has_all_fields:
  "(process_uploads env uploaded_files tr = (Inr (Some s), tr') \<longrightarrow>
      (\<forall>r \<in> set (results s). has_status ''SUCCESS'' r \<longrightarrow>
         (\<exists>device model serial manufacturer.
            map_of r ''device'' = Some device \<and> map_of r ''model'' = Some model \<and>
            map_of r ''serial'' = Some serial \<and> map_of r ''manufacturer'' = Some manufacturer))) \<and>
   (extract_equipment_data env (img_bytes img) tr = (Inr d, tr1) \<longrightarrow>
      k \<in> {''device'', ''model'', ''serial'', ''manufacturer''} \<longrightarrow> getitem d k = Inl e \<longrightarrow>
      has_status ''FAILED'' (fst (try_image env op_idx op_folder_id img tr)) \<and>
      \<not> has_status ''SUCCESS'' (fst (try_image env op_idx op_folder_id img tr)))"
proof (intro conjI impI ballI)
  fix r
  assume run: "process_uploads env uploaded_files tr = (Inr (Some s), tr')"
    and r: "r \<in> set (results s)" and ok: "has_status ''SUCCESS'' r"
  from process_uploads_char[OF run] obtain all_images mid tr2 where
    ro: "run_operations env mid (int (length all_images))
           (enumerate_from 1 (split_operations all_images)) []
           (tr @ [DriveFolder (master_name env tr) (master_parents env)]) = (Inr (results s), tr2)"
    by blast
  from run_operations_char[OF ro] obtain groups where
    g: "list_all2 op_results groups (enumerate_from 1 (split_operations all_images))"
       "results s = concat groups"
    by auto
  from r obtain p where p: "p < length (results s)" "r = results s ! p"
    by (auto simp: in_set_conv_nth)
  with rows_nth(1)[OF g(1)] g(2) have "p < length all_images" by simp
  from rows_nth(2)[OF g(1) this] p g(2)
  have "is_result (int (p div 50) + 1) (all_images ! p) r" by simp
  with ok obtain d doc_url where
    "success_row (int (p div 50) + 1) (all_images ! p) d doc_url = Inr r"
    by (auto simp: is_result_def has_status_def failed_row_def)
  from success_row_fields[OF this]
  show "\<exists>device model serial manufacturer.
            map_of r ''device'' = Some device \<and> map_of r ''model'' = Some model \<and>
            map_of r ''serial'' = Some serial \<and> map_of r ''manufacturer'' = Some manufacturer"
    by auto
next
  assume ex: "extract_equipment_data env (img_bytes img) tr = (Inr d, tr1)"
    and k: "k \<in> {''device'', ''model'', ''serial'', ''manufacturer''}" and m: "getitem d k = Inl e"
  from k m have sr: "\<exists>e'. success_row op_idx img d doc_url = Inl e'" for doc_url
    by (auto simp: success_row_def split: sum.splits)
  obtain res tr2 where cd: "create_equipment_doc env d op_folder_id tr1 = (res, tr2)"
    by (cases "create_equipment_doc env d op_folder_id tr1")
  have "\<exists>e'. fst (try_image env op_idx op_folder_id img tr) = failed_row op_idx img e'"
  proof (cases res)
    case (Inl e')
    with ex cd have "fst (try_image env op_idx op_folder_id img tr) = failed_row op_idx img e'"
      by (simp add: try_image_def)
    then show ?thesis ..
  next
    case (Inr doc_url)
    from sr[of doc_url] obtain e' where "success_row op_idx img d doc_url = Inl e'" ..
    with ex cd Inr have "fst (try_image env op_idx op_folder_id img tr) = failed_row op_idx img e'"
      by (simp add: try_image_def)
    then show ?thesis ..
  qed
  then show "has_status ''FAILED'' (fst (try_image env op_idx op_folder_id img tr))"
    and "\<not> has_status ''SUCCESS'' (fst (try_image env op_idx op_folder_id img tr))"
    by (auto simp: has_status_def failed_row_def)
qed

theorem success_has_all_fields_witness:
  "(\<exists>tr'. process_uploads demo_env demo_files [] = (Inr (Some demo_summary), tr')) \<and>
   results demo_summary ! 3 \<in> set (results demo_summary) \<and>
   has_status ''SUCCESS'' (results demo_summary ! 3) \<and>
   (\<exists>device model serial manufacturer.
      map_of (results demo_summary ! 3) ''device'' = Some device \<and>
      map_of (results demo_summary ! 3) ''model'' = Some model \<and>
      map_of (results demo_summary ! 3) ''serial'' = Some serial \<and>
      map_of (results demo_summary ! 3) ''manufacturer'' = Some manufacturer) \<and>
   extract_equipment_data demo_env ''B.PNG'' [] = (Inr (PDict [(''device'', PStr ''Walker'')]), [Extract ''B.PNG'']) \<and>
   getitem (PDict [(''device'', PStr ''Walker'')]) ''serial'' = Inl (KeyError ''serial'') \<and>
   has_status ''FAILED'' (fst (try_image demo_env 1 ''f'' \<lparr>img_name = ''B.PNG'', img_bytes = ''B.PNG''\<rparr> []))"
proof -
  let ?b = "\<lparr>img_name = ''B.PNG'', img_bytes = ''B.PNG''\<rparr>"
  from demo_run obtain tr' where
    run: "process_uploads demo_env demo_files [] = (Inr (Some demo_summary), tr')" ..
  have mem: "results demo_summary ! 3 \<in> set (results demo_summary)"
    by (simp add: demo_summary_def demo_results_def)
  have st: "has_status ''SUCCESS'' (results demo_summary ! 3)"
    by (simp add: demo_summary_def demo_results_def has_status_def)
  from success_has_all_fields[THEN conjunct1, rule_format, OF run mem st]
  have f: "\<exists>device model serial manufacturer.
      map_of (results demo_summary ! 3) ''device'' = Some device \<and>
      map_of (results demo_summary ! 3) ''model'' = Some model \<and>
      map_of (results demo_summary ! 3) ''serial'' = Some serial \<and>
      map_of (results demo_summary ! 3) ''manufacturer'' = Some manufacturer" .
  have ex: "extract_equipment_data demo_env (img_bytes ?b) [] = (Inr (PDict [(''device'', PStr ''Walker'')]), [Extract ''B.PNG''])"
    by (simp add: extract_equipment_data_def demo_env_def)
  have k: "''serial'' \<in> {''device'', ''model'', ''serial'', ''manufacturer''}" by simp
  have m: "getitem (PDict [(''device'', PStr ''Walker'')]) ''serial'' = Inl (KeyError ''serial'')" by simp
  from success_has_all_fields[THEN conjunct2, rule_format, OF ex k m]
  have fl: "has_status ''FAILED'' (fst (try_image demo_env 1 ''f'' ?b []))" by blast
  from run have r': "\<exists>tr'. process_uploads demo_env demo_files [] = (Inr (Some demo_summary), tr')" ..
  from ex have ex': "extract_equipment_data demo_env ''B.PNG'' [] = (Inr (PDict [(''device'', PStr ''Walker'')]), [Extract ''B.PNG''])"
    by simp
  show ?thesis by (intro conjI) (rule r' mem st f ex' m fl)+
qed

text \<open>
  Claim C10. The test of line 381 is case-sensitive: an entry is opened as a zip archive
  exactly when its name is some prefix followed by the lower-case \<^verbatim>\<open>.zip\<close> (then a
  failure to open it ends the run, and otherwise its members are read); any other entry,
  \<^verbatim>\<open>PHOTOS.ZIP\<close> among them, is appended as one image with the raw bytes, whatever the
  zip decoder would make of them. The test of line 384 on the members looks only at the
  lower-cased name, so it accepts \<^verbatim>\<open>PHOTO.JPG\<close>.
\<close>

theorem archive_detection_case_sensitive:
  "(endswith (name file) ''.zip'' \<longleftrightarrow> (\<exists>p. name file = p @ ''.zip'')) \<and>
   ((\<exists>p. name file = p @ ''.zip'') \<longrightarrow> ZipFile env (data file) = Inl e \<longrightarrow>
      extract_all_images env [file] [] = Inl e) \<and>
   ((\<exists>p. name file = p @ ''.zip'') \<longrightarrow> ZipFile env (data file) = Inr z \<longrightarrow>
      extract_all_images env [file] [] = zip_members z (namelist z) []) \<and>
   (\<not> (\<exists>p. name file = p @ ''.zip'') \<longrightarrow>
      extract_all_images env (file # rest) acc =
        extract_all_images env rest (acc @ [\<lparr>img_name = name file, img_bytes = data file\<rparr>]) \<and>
      extract_all_images env [file] [] = Inr [\<lparr>img_name = name file, img_bytes = data file\<rparr>]) \<and>
   (name file = ''PHOTOS.ZIP'' \<longrightarrow>
      extract_all_images env [file] [] = Inr [\<lparr>img_name = ''PHOTOS.ZIP'', img_bytes = data file\<rparr>]) \<and>
   has_image_ext ''PHOTO.JPG'' \<and>
   (lower n = lower n' \<longrightarrow> has_image_ext n = has_image_ext n')"
proof -
  have a: "endswith (name file) ''.zip'' \<longleftrightarrow> (\<exists>p. name file = p @ ''.zip'')"
    by (rule endswith_iff)
  have b: "(\<exists>p. name file = p @ ''.zip'') \<longrightarrow> ZipFile env (data file) = Inl e \<longrightarrow>
      extract_all_images env [file] [] = Inl e"
    unfolding a[symmetric] by simp
  have c: "(\<exists>p. name file = p @ ''.zip'') \<longrightarrow> ZipFile env (data file) = Inr z \<longrightarrow>
      extract_all_images env [file] [] = zip_members z (namelist z) []"
    unfolding a[symmetric] by (simp split: sum.splits)
  have d: "\<not> (\<exists>p. name file = p @ ''.zip'') \<longrightarrow>
      extract_all_images env (file # rest) acc =
        extract_all_images env rest (acc @ [\<lparr>img_name = name file, img_bytes = data file\<rparr>]) \<and>
      extract_all_images env [file] [] = Inr [\<lparr>img_name = name file, img_bytes = data file\<rparr>]"
    unfolding a[symmetric] by simp
  have "\<not> endswith ''PHOTOS.ZIP'' ''.zip''" by (simp add: endswith_def)
  then have f: "name file = ''PHOTOS.ZIP'' \<longrightarrow>
      extract_all_images env [file] [] = Inr [\<lparr>img_name = ''PHOTOS.ZIP'', img_bytes = data file\<rparr>]"
    by simp
  have g: "has_image_ext ''PHOTO.JPG''" by code_simp
  have h: "lower n = lower n' \<longrightarrow> has_image_ext n = has_image_ext n'"
    by (simp add: has_image_ext_def)
  from a b c d f g h show ?thesis by (intro conjI)
qed

theorem archive_detection_case_sensitive_witness:
  "ZipFile demo_env ''PK'' = Inr demo_archive \<and>
   extract_all_images demo_env [\<lparr>name = ''PHOTOS.ZIP'', data = ''PK''\<rparr>] []
     = Inr [\<lparr>img_name = ''PHOTOS.ZIP'', img_bytes = ''PK''\<rparr>] \<and>
   extract_all_images demo_env [\<lparr>name = ''photos.zip'', data = ''PK''\<rparr>] []
     = zip_members demo_archive (namelist demo_archive) [] \<and>
   map img_name (projr (zip_members demo_archive (namelist demo_archive) []))
     = [''a.jpg'', ''B.PNG'', ''lift.jpeg''] \<and>
   extract_all_images demo_env [\<lparr>name = ''broken.zip'', data = ''junk''\<rparr>] []
     = Inl (Raised ''File is not a zip file'')"
proof -
  let ?up = "\<lparr>name = ''PHOTOS.ZIP'', data = ''PK''\<rparr>"
  let ?lo = "\<lparr>name = ''photos.zip'', data = ''PK''\<rparr>"
  let ?br = "\<lparr>name = ''broken.zip'', data = ''junk''\<rparr>"
  have z: "ZipFile demo_env ''PK'' = Inr demo_archive" by (simp add: demo_env_def)
  have n: "name ?up = ''PHOTOS.ZIP''" by simp
  have "extract_all_images demo_env [?up] [] = Inr [\<lparr>img_name = ''PHOTOS.ZIP'', img_bytes = data ?up\<rparr>]"
    by (rule archive_detection_case_sensitive[THEN conjunct2, THEN conjunct2, THEN conjunct2,
          THEN conjunct2, THEN conjunct1, rule_format, OF n])
  then have a: "extract_all_images demo_env [?up] [] = Inr [\<lparr>img_name = ''PHOTOS.ZIP'', img_bytes = ''PK''\<rparr>]"
    by (simp only: uploaded_file.select_convs)
  have ex: "\<exists>p. name ?lo = p @ ''.zip''"
    by (intro exI[of _ "''photos''"]) simp
  have z': "ZipFile demo_env (data ?lo) = Inr demo_archive" by (simp add: demo_env_def)
  have b: "extract_all_images demo_env [?lo] [] = zip_members demo_archive (namelist demo_archive) []"
    by (rule archive_detection_case_sensitive[THEN conjunct2, THEN conjunct2, THEN conjunct1,
          rule_format, OF ex z'])
  have c: "map img_name (projr (zip_members demo_archive (namelist demo_archive) []))
     = [''a.jpg'', ''B.PNG'', ''lift.jpeg'']"
    by code_simp
  have ex2: "\<exists>p. name ?br = p @ ''.zip''"
    by (intro exI[of _ "''broken''"]) simp
  have z2: "ZipFile demo_env (data ?br) = Inl (Raised ''File is not a zip file'')"
    by (simp add: demo_env_def)
  have d: "extract_all_images demo_env [?br] [] = Inl (Raised ''File is not a zip file'')"
    by (rule archive_detection_case_sensitive[THEN conjunct2, THEN conjunct1, rule_format, OF ex2 z2])
  from z a b c d show ?thesis by (intro conjI)
qed

end
